theory Spec2Isabelle
  imports Main "HOL-Library.Sublist" "HOL-Library.Multiset"
begin

section \<open>The feed builder of githublog (feed-builder/index.ts)\<close>

text \<open>
  The program scans a repository for \<open>year/month/day/file\<close> entries, sorts them with a
  date comparator, reads each file, derives a title and a description with a markdown
  reducer, and writes one RSS document. JavaScript strings are modelled as \<open>string\<close>:
  one \<open>char\<close> stands for one code unit (code units below 256 only), so
  \<open>length\<close> is \<open>String.prototype.length\<close> on such text.
\<close>

subsection \<open>String primitives of the runtime\<close>

definition nl :: char where
  "nl = CHR 0x0A"

text \<open>\<open>s.split('\n')\<close>: the pieces between the separators; the empty string gives \<open>['']\<close>.\<close>

fun split_on :: "char \<Rightarrow> string \<Rightarrow> string list" where
  "split_on sep [] = [[]]"
| "split_on sep (c # cs) =
     (if c = sep then [] # split_on sep cs
      else (case split_on sep cs of
              [] \<Rightarrow> [[c]]
            | l # ls \<Rightarrow> (c # l) # ls))"

text \<open>\<open>xs.join(sep)\<close>.\<close>

fun join_with :: "string \<Rightarrow> string list \<Rightarrow> string" where
  "join_with sep [] = []"
| "join_with sep [x] = x"
| "join_with sep (x # y # ys) = x @ sep @ join_with sep (y # ys)"

text \<open>The white space and line terminators that \<open>String.prototype.trim\<close> removes.\<close>

definition isWhiteSpace :: "char \<Rightarrow> bool" where
  "isWhiteSpace c \<longleftrightarrow>
     c \<in> set [CHR 0x09, CHR 0x0A, CHR 0x0B, CHR 0x0C, CHR 0x0D, CHR 0x20, CHR 0xA0]"

definition trim :: "string \<Rightarrow> string" where
  "trim s = rev (dropWhile isWhiteSpace (rev (dropWhile isWhiteSpace s)))"

text \<open>\<open>s.replace(/\n/g, ' ')\<close>.\<close>

definition replace_newlines :: "string \<Rightarrow> string" where
  "replace_newlines s = map (\<lambda>c. if c = nl then CHR '' '' else c) s"

subsection \<open>Errors\<close>

text \<open>
  A rejected promise is a value: \<open>IOError p\<close> for a failed \<open>fs\<close> call on path \<open>p\<close>,
  \<open>ReducerError\<close> for a rejection of the markdown pipeline.
\<close>

datatype error = IOError string | ReducerError

subsection \<open>The metadata extractor\<close>

text \<open>
  \<open>stripMarkdown\<close> runs \<open>remark().use(strip).process(text)\<close>, a library outside the
  repository, so the reducer is a parameter. It receives \<open>None\<close> where the source hands
  it \<open>undefined\<close> (\<open>contentWithoutEmptyLines[0]\<close> of an empty array), and its promise
  may reject.
\<close>

type_synonym reducer = "string option \<Rightarrow> error + string"

record PostInfo =
  title :: string
  description :: string

definition descriptionCharsToUse :: nat where
  "descriptionCharsToUse = 420"

text \<open>\<open>xs[0]\<close>: \<open>undefined\<close> on the empty array, no exception.\<close>

definition first_elem :: "'a list \<Rightarrow> 'a option" where
  "first_elem xs = (case xs of [] \<Rightarrow> None | x # _ \<Rightarrow> Some x)"

definition contentWithoutEmptyLines :: "string \<Rightarrow> string list" where
  "contentWithoutEmptyLines markdownContents =
     filter (\<lambda>l. l \<noteq> []) (split_on nl markdownContents)"

definition nonTitleContent :: "string \<Rightarrow> string" where
  "nonTitleContent markdownContents =
     take descriptionCharsToUse
       (join_with [nl] (drop 1 (contentWithoutEmptyLines markdownContents)))"

definition extractPostInfo :: "reducer \<Rightarrow> string \<Rightarrow> error + PostInfo" where
  "extractPostInfo stripMarkdown markdownContents =
     (case stripMarkdown (first_elem (contentWithoutEmptyLines markdownContents)) of
        Inl e \<Rightarrow> Inl e
      | Inr t \<Rightarrow>
          (case stripMarkdown (Some (nonTitleContent markdownContents)) of
             Inl e \<Rightarrow> Inl e
           | Inr d \<Rightarrow>
               Inr \<lparr>title = t,
                    description = replace_newlines (trim d) @ ''...''\<rparr>))"

text \<open>
  A reducer used to run the extractor on concrete documents: it returns plain text as
  it is and maps a missing input to the empty text.
\<close>

definition plainReducer :: reducer where
  "plainReducer x = (case x of None \<Rightarrow> Inr [] | Some s \<Rightarrow> Inr s)"

subsection \<open>The file system and the path scanner\<close>

text \<open>
  The program sees the file system through \<open>fs.readdir\<close>, \<open>fs.readFile\<close> and
  \<open>fs.writeFile\<close> only. \<open>dirs s p\<close> is the listing \<open>readdir\<close> delivers for \<open>p\<close>
  (\<open>None\<close>: the call rejects, as for a missing path or a regular file), \<open>files s p\<close>
  the text \<open>readFile\<close> delivers (\<open>None\<close>: the call rejects).
\<close>

record fs =
  dirs :: "string \<Rightarrow> string list option"
  files :: "string \<Rightarrow> string option"

definition readdir :: "fs \<Rightarrow> string \<Rightarrow> error + string list" where
  "readdir s p = (case dirs s p of None \<Rightarrow> Inl (IOError p) | Some names \<Rightarrow> Inr names)"

definition readFile :: "fs \<Rightarrow> string \<Rightarrow> error + string" where
  "readFile s p = (case files s p of None \<Rightarrow> Inl (IOError p) | Some text \<Rightarrow> Inr text)"

text \<open>
  \<open>path.join(a, b)\<close> for a normalised directory \<open>a\<close> other than the root of the file
  system and an entry name \<open>b\<close> of a listing (never empty, \<open>.\<close> or \<open>..\<close>, and without
  a slash): nothing is normalised away.
\<close>

definition path_join :: "string \<Rightarrow> string \<Rightarrow> string" where
  "path_join a b = a @ ''/'' @ b"

text \<open>\<open>promise.then(f)\<close> on a promise that is settled.\<close>

definition then_map :: "('a \<Rightarrow> 'b) \<Rightarrow> error + 'a \<Rightarrow> error + 'b" where
  "then_map f r = (case r of Inl e \<Rightarrow> Inl e | Inr v \<Rightarrow> Inr (f v))"

text \<open>
  \<open>Promise.all\<close>: the results in the order of the promises when all fulfil; rejected as
  soon as one rejects (the model reports the first rejection in list order).
\<close>

fun promise_all :: "(error + 'a) list \<Rightarrow> error + 'a list" where
  "promise_all [] = Inr []"
| "promise_all (r # rs) =
     (case r of
        Inl e \<Rightarrow> Inl e
      | Inr v \<Rightarrow> (case promise_all rs of Inl e \<Rightarrow> Inl e | Inr vs \<Rightarrow> Inr (v # vs)))"

definition isDigit :: "char \<Rightarrow> bool" where
  "isDigit c \<longleftrightarrow> c \<in> set ''0123456789''"

text \<open>\<open>yearRegex.test(dir)\<close> for \<open>/^2[0-9]{3}$/\<close>.\<close>

definition yearRegex :: "string \<Rightarrow> bool" where
  "yearRegex dir =
     (case dir of
        [a, b, c, d] \<Rightarrow> a = CHR ''2'' \<and> isDigit b \<and> isDigit c \<and> isDigit d
      | _ \<Rightarrow> False)"

definition findBlogsInYearDir :: "fs \<Rightarrow> string \<Rightarrow> error + string list" where
  "findBlogsInYearDir s yearDir =
     (case readdir s yearDir of
        Inl e \<Rightarrow> Inl e
      | Inr monthDirs \<Rightarrow>
          (case then_map concat (promise_all (map (\<lambda>month.
                    let fullMonthDir = path_join yearDir month
                    in then_map (map (\<lambda>day. path_join fullMonthDir day)) (readdir s fullMonthDir))
                  monthDirs)) of
             Inl e \<Rightarrow> Inl e
           | Inr dayDirs \<Rightarrow>
               then_map concat (promise_all (map (\<lambda>dayDir.
                   then_map (map (\<lambda>blog. path_join dayDir blog)) (readdir s dayDir))
                 dayDirs))))"

text \<open>The first statements of \<open>main\<close>, up to \<open>allBlogs\<close> before it is sorted.\<close>

definition allBlogs :: "fs \<Rightarrow> string \<Rightarrow> error + string list" where
  "allBlogs s repoDir =
     (case readdir s repoDir of
        Inl e \<Rightarrow> Inl e
      | Inr results \<Rightarrow>
          (let blogDirs = map (\<lambda>yearDir. path_join repoDir yearDir) (filter yearRegex results)
           in then_map concat (promise_all (map (findBlogsInYearDir s) blogDirs))))"

text \<open>A repository with one directory that is not a year and one document.\<close>

definition exampleTree :: fs where
  "exampleTree =
     \<lparr>dirs = map_of
        [(''/repo'', [''assets'', ''2023'']),
         (''/repo/assets'', [''Uno.png'']),
         (''/repo/2023'', [''1'']),
         (''/repo/2023/1'', [''1'']),
         (''/repo/2023/1/1'', [''x.ext''])],
      files = map_of
        [(''/repo/assets/Uno.png'', ''PNG''),
         (''/repo/2023/1/1/x.ext'', ''Hello World'')]\<rparr>"

text \<open>\<open>name\<close> is an entry of the listing of \<open>dir\<close>.\<close>

definition lists_entry :: "fs \<Rightarrow> string \<Rightarrow> string \<Rightarrow> bool" where
  "lists_entry s dir name =
     (case dirs s dir of None \<Rightarrow> False | Some names \<Rightarrow> name \<in> set names)"

text \<open>
  The layout under the year directories: every year-named entry of the root can be
  listed, and so can each of its entries and each of theirs. Entries of the root that
  are not year-named are not looked at.
\<close>

definition hierarchy_readable :: "fs \<Rightarrow> string \<Rightarrow> string list \<Rightarrow> bool" where
  "hierarchy_readable s root names =
     list_all (\<lambda>y.
        case dirs s (path_join root y) of
          None \<Rightarrow> False
        | Some months \<Rightarrow>
            list_all (\<lambda>m.
               case dirs s (path_join (path_join root y) m) of
                 None \<Rightarrow> False
               | Some days \<Rightarrow>
                   list_all (\<lambda>d.
                      dirs s (path_join (path_join (path_join root y) m) d) \<noteq> None) days)
              months)
       (filter yearRegex names)"

subsection \<open>Dates\<close>

text \<open>The characters that \<open>.\<close> does not match (of those in the modelled range).\<close>

definition isLineTerminator :: "char \<Rightarrow> bool" where
  "isLineTerminator c \<longleftrightarrow> c = CHR 0x0A \<or> c = CHR 0x0D"

text \<open>The ways \<open>\d{1,2}\<close> matches at the head of a string, the greedy one first.\<close>

fun digits12 :: "string \<Rightarrow> (string \<times> string) list" where
  "digits12 (a # b # r) =
     (if isDigit a
      then (if isDigit b then [([a, b], r)] else []) @ [([a], b # r)]
      else [])"
| "digits12 [a] = (if isDigit a then [([a], [])] else [])"
| "digits12 [] = []"

text \<open>
  The group \<open>(2\d{3}\/\d{1,2}\/\d{1,2})\<close> followed by \<open>.+\<close>, matched at the head of a
  string: the alternatives in backtracking order, the first success taken.
\<close>

definition dateGroupAt :: "string \<Rightarrow> string option" where
  "dateGroupAt s =
     (case s of
        y1 # y2 # y3 # y4 # sl # r \<Rightarrow>
          if y1 = CHR ''2'' \<and> isDigit y2 \<and> isDigit y3 \<and> isDigit y4 \<and> sl = CHR ''/''
          then first_elem (concat (map (\<lambda>(m, r1).
                 case r1 of
                   [] \<Rightarrow> []
                 | c # r2 \<Rightarrow>
                     if c = CHR ''/''
                     then concat (map (\<lambda>(d, r3).
                            case r3 of
                              [] \<Rightarrow> []
                            | e # _ \<Rightarrow>
                                if isLineTerminator e then []
                                else [[y1, y2, y3, y4] @ ''/'' @ m @ ''/'' @ d])
                          (digits12 r2))
                     else [])
               (digits12 r)))
          else None
      | _ \<Rightarrow> None)"

text \<open>
  \<open>blog.match(dateExtractionRegex)\<close> for \<open>/.+?(2\d{3}\/\d{1,2}\/\d{1,2}).+/\<close>: group 1 of
  the match, \<open>None\<close> for \<open>null\<close>. The lazy \<open>.+?\<close> needs one character that is not a
  line terminator before the group, so the group is taken at the first position that
  follows such a character and where the rest of the pattern matches.
\<close>

fun dateExtraction :: "string \<Rightarrow> string option" where
  "dateExtraction [] = None"
| "dateExtraction (c # s) =
     (if isLineTerminator c then dateExtraction s
      else (case dateGroupAt s of Some g \<Rightarrow> Some g | None \<Rightarrow> dateExtraction s))"

definition digitVal :: "char \<Rightarrow> nat" where
  "digitVal c = of_char c - 48"

definition numberOf :: "string \<Rightarrow> nat" where
  "numberOf ds = foldl (\<lambda>n c. 10 * n + digitVal c) 0 ds"

text \<open>A date string of the shape \<open>dddd/d{1,2}/d{1,2}\<close>, as numbers.\<close>

definition parseYMD :: "string \<Rightarrow> (nat \<times> nat \<times> nat) option" where
  "parseYMD str =
     (case split_on (CHR ''/'') str of
        [y, m, d] \<Rightarrow>
          if length y = 4 \<and> length m \<in> {1, 2} \<and> length d \<in> {1, 2}
             \<and> list_all isDigit (y @ m @ d)
          then Some (numberOf y, numberOf m, numberOf d)
          else None
      | _ \<Rightarrow> None)"

definition msPerDay :: int where
  "msPerDay = 86400000"

text \<open>The day number (days since 1 January 1970) of a date of the Gregorian calendar.\<close>

definition daysFromCivil :: "int \<Rightarrow> int \<Rightarrow> int \<Rightarrow> int" where
  "daysFromCivil y m d =
     (let y' = (if m \<le> 2 then y - 1 else y);
          era = y' div 400;
          yoe = y' - era * 400;
          mp = (m + 9) mod 12;
          doy = (153 * mp + 2) div 5 + d - 1;
          doe = yoe * 365 + yoe div 4 - yoe div 100 + doy
      in era * 146097 + doe - 719468)"

text \<open>Year, month and day of a day number.\<close>

definition civilFromDays :: "int \<Rightarrow> int \<times> int \<times> int" where
  "civilFromDays z =
     (let z' = z + 719468;
          era = z' div 146097;
          doe = z' - era * 146097;
          yoe = (doe - doe div 1460 + doe div 36524 - doe div 146096) div 365;
          doy = doe - (365 * yoe + yoe div 4 - yoe div 100);
          mp = (5 * doy + 2) div 153;
          d = doy - (153 * mp + 2) div 5 + 1;
          m = (if mp < 10 then mp + 3 else mp - 9);
          y = yoe + era * 400
      in (if m \<le> 2 then y + 1 else y, m, d))"

text \<open>
  The environment of a run. \<open>localTZA\<close> is the offset of local time from UTC in
  milliseconds; \<open>yearClock\<close> and \<open>buildClock\<close> are the time values of the two
  \<open>new Date()\<close> at module load; \<open>legacyDate\<close> is what the engine's date parser gives
  for strings that are not of the shape \<open>dddd/d{1,2}/d{1,2}\<close> (\<open>None\<close>: an invalid date);
  \<open>writeOutcome\<close> is how the final \<open>writeFile\<close> ends.
\<close>

datatype write_outcome = WriteCompletes | OpenFails | WriteFailsAfter nat

record env =
  repoDir :: string
  localTZA :: int
  yearClock :: int
  buildClock :: int
  legacyDate :: "string \<Rightarrow> int option"
  writeOutcome :: write_outcome

text \<open>
  \<open>+new Date(str)\<close>, \<open>None\<close> for \<open>NaN\<close>. A string \<open>year/month/day\<close> is not an ISO
  date: the engine's fallback parser reads it as local midnight of that day, accepts
  months 1 to 12 and days 1 to 31, and lets a day beyond the end of the month run
  into the next one.
\<close>

definition newDate :: "env \<Rightarrow> string \<Rightarrow> int option" where
  "newDate e str =
     (case parseYMD str of
        Some (y, m, d) \<Rightarrow>
          if 1 \<le> m \<and> m \<le> 12 \<and> 1 \<le> d \<and> d \<le> 31
          then Some (daysFromCivil (int y) (int m) (int d) * msPerDay - localTZA e)
          else None
      | None \<Rightarrow> legacyDate e str)"

text \<open>The decimal digit of a number below ten.\<close>

definition digitChar :: "nat \<Rightarrow> char" where
  "digitChar n = ''0123456789'' ! n"

fun showNat :: "nat \<Rightarrow> string" where
  "showNat n = (if n < 10 then [digitChar n] else showNat (n div 10) @ [digitChar (n mod 10)])"

definition padStart :: "nat \<Rightarrow> string \<Rightarrow> string" where
  "padStart k s = replicate (k - length s) (CHR ''0'') @ s"

definition dayNames :: "string list" where
  "dayNames = [''Sun'', ''Mon'', ''Tue'', ''Wed'', ''Thu'', ''Fri'', ''Sat'']"

definition monthNames :: "string list" where
  "monthNames = [''Jan'', ''Feb'', ''Mar'', ''Apr'', ''May'', ''Jun'',
                 ''Jul'', ''Aug'', ''Sep'', ''Oct'', ''Nov'', ''Dec'']"

text \<open>\<open>date.toUTCString()\<close>, \<open>Invalid Date\<close> for a date whose time value is \<open>NaN\<close>.\<close>

definition toUTCString :: "int option \<Rightarrow> string" where
  "toUTCString tv =
     (case tv of
        None \<Rightarrow> ''Invalid Date''
      | Some t \<Rightarrow>
          (let day = t div msPerDay;
               ms = t mod msPerDay;
               (y, m, d) = civilFromDays day;
               weekday = dayNames ! nat ((day + 4) mod 7);
               month = monthNames ! nat (m - 1);
               yearSign = (if y < 0 then ''-'' else '''')
           in weekday @ '', '' @ padStart 2 (showNat (nat d)) @ '' '' @ month @ '' ''
              @ yearSign @ padStart 4 (showNat (nat (abs y))) @ '' ''
              @ padStart 2 (showNat (nat (ms div 3600000))) @ '':''
              @ padStart 2 (showNat (nat (ms div 60000 mod 60))) @ '':''
              @ padStart 2 (showNat (nat (ms div 1000 mod 60))) @ '' GMT''))"

text \<open>\<open>date.getFullYear()\<close>: the year in local time.\<close>

definition getFullYear :: "env \<Rightarrow> int \<Rightarrow> int" where
  "getFullYear e t = fst (civilFromDays ((t + localTZA e) div msPerDay))"

subsection \<open>Ordering the documents\<close>

text \<open>
  The comparator handed to \<open>allBlogs.sort\<close>. It returns 0 when either path has no
  match; the difference of two time values is \<open>NaN\<close> when either date is invalid,
  which \<open>sort\<close> takes as 0.
\<close>

definition sortCompare :: "env \<Rightarrow> string \<Rightarrow> string \<Rightarrow> int" where
  "sortCompare e a b =
     (case (dateExtraction a, dateExtraction b) of
        (Some x, Some y) \<Rightarrow>
          (case (newDate e x, newDate e y) of
             (Some t, Some u) \<Rightarrow> t - u
           | _ \<Rightarrow> 0)
      | _ \<Rightarrow> 0)"

text \<open>
  \<open>Array.prototype.sort\<close> with a comparator is stable, and for a consistent comparator
  its result is the one ordered arrangement that keeps equal elements in their order;
  the stable insertion sort computes it. For a comparator that is not consistent the
  order is left to the engine, and the insertion sort stands for it.
\<close>

fun insert_sorted :: "('a \<Rightarrow> 'a \<Rightarrow> int) \<Rightarrow> 'a \<Rightarrow> 'a list \<Rightarrow> 'a list" where
  "insert_sorted cmp x [] = [x]"
| "insert_sorted cmp x (y # ys) =
     (if cmp x y \<le> 0 then x # y # ys else y # insert_sorted cmp x ys)"

fun array_sort :: "('a \<Rightarrow> 'a \<Rightarrow> int) \<Rightarrow> 'a list \<Rightarrow> 'a list" where
  "array_sort cmp [] = []"
| "array_sort cmp (x # xs) = insert_sorted cmp x (array_sort cmp xs)"

text \<open>The date the comparator resolves for a path, \<open>None\<close> when it resolves none.\<close>

definition sortDate :: "env \<Rightarrow> string \<Rightarrow> int option" where
  "sortDate e blog =
     (case dateExtraction blog of None \<Rightarrow> None | Some g \<Rightarrow> newDate e g)"

subsection \<open>Rendering\<close>

text \<open>
  \<open>s.replace(pattern, replacement)\<close> with a string pattern: the first occurrence is
  replaced, and in the replacement \<open>$$\<close>, \<open>$&\<close>, \<open>$`\<close> and \<open>$'\<close> stand for a dollar sign,
  the match, the text before it and the text after it.
\<close>

fun find_first :: "string \<Rightarrow> string \<Rightarrow> (string \<times> string) option" where
  "find_first pat [] = (if pat = [] then Some ([], []) else None)"
| "find_first pat (c # cs) =
     (if prefix pat (c # cs) then Some ([], drop (length pat) (c # cs))
      else (case find_first pat cs of
              None \<Rightarrow> None
            | Some (preceding, following) \<Rightarrow> Some (c # preceding, following)))"

fun getSubstitution :: "string \<Rightarrow> string \<Rightarrow> string \<Rightarrow> string \<Rightarrow> string" where
  "getSubstitution matched preceding following [] = []"
| "getSubstitution matched preceding following [c] = [c]"
| "getSubstitution matched preceding following (c # c' # r) =
     (if c = CHR ''$'' \<and> c' = CHR ''$'' then CHR ''$'' # getSubstitution matched preceding following r
      else if c = CHR ''$'' \<and> c' = CHR ''&'' then matched @ getSubstitution matched preceding following r
      else if c = CHR ''$'' \<and> c' = CHR 0x60 then preceding @ getSubstitution matched preceding following r
      else if c = CHR ''$'' \<and> c' = CHR 0x27 then following @ getSubstitution matched preceding following r
      else c # getSubstitution matched preceding following (c' # r))"

definition js_replace :: "string \<Rightarrow> string \<Rightarrow> string \<Rightarrow> string" where
  "js_replace pat replacement s =
     (case find_first pat s of
        None \<Rightarrow> s
      | Some (preceding, following) \<Rightarrow> preceding @ getSubstitution pat preceding following replacement @ following)"

definition githubURLBase :: string where
  "githubURLBase = ''https://github.com/francisrstokes/githublog''"

definition githubURLPrefix :: string where
  "githubURLPrefix = githubURLBase @ ''/blob/main''"

definition blogTitle :: string where
  "blogTitle = ''Francis Stokes :: Githublog''"

definition blogDescription :: string where
  "blogDescription =
     ''I'' @ [CHR 0x27] @ ''m sick of complex blogging solutions, so markdown files in a git repo it is.''"

definition showInt :: "int \<Rightarrow> string" where
  "showInt i = (if i < 0 then ''-'' @ showNat (nat (- i)) else showNat (nat i))"

definition copyrightField :: "env \<Rightarrow> string" where
  "copyrightField e = showInt (getFullYear e (yearClock e)) @ '' Francis Stokes - All rights reserved''"

definition lastBuildDate :: "env \<Rightarrow> string" where
  "lastBuildDate e = toUTCString (Some (buildClock e))"

definition ttl :: string where
  "ttl = showNat (86400 div 60)"

definition dq :: char where
  "dq = CHR 0x22"

definition rssTemplate :: "env \<Rightarrow> string" where
  "rssTemplate e =
     ''<?xml version='' @ [dq] @ ''1.0'' @ [dq] @ '' encoding='' @ [dq] @ ''UTF-8'' @ [dq] @ '' ?>'' @ [nl]
     @ ''<rss version='' @ [dq] @ ''2.0'' @ [dq] @ ''>'' @ [nl]
     @ ''<channel>'' @ [nl]
     @ '' <title>'' @ blogTitle @ ''</title>'' @ [nl]
     @ '' <description>'' @ blogDescription @ ''</description>'' @ [nl]
     @ '' <link>'' @ githubURLBase @ ''</link>'' @ [nl]
     @ '' <copyright>'' @ copyrightField e @ ''</copyright>'' @ [nl]
     @ '' <lastBuildDate>'' @ lastBuildDate e @ ''</lastBuildDate>'' @ [nl]
     @ '' <pubDate>'' @ lastBuildDate e @ ''</pubDate>'' @ [nl]
     @ '' <ttl>'' @ ttl @ ''</ttl>'' @ [nl]
     @ [nl]
     @ ''{blog_entries}'' @ [nl]
     @ [nl]
     @ ''</channel>'' @ [nl]
     @ ''</rss>'' @ [nl]"

definition generateRSSItem :: "PostInfo \<Rightarrow> string \<Rightarrow> string \<Rightarrow> string" where
  "generateRSSItem postInfo link date =
     ''<item>'' @ [nl]
     @ ''  <title>'' @ title postInfo @ ''</title>'' @ [nl]
     @ ''  <description>'' @ description postInfo @ ''</description>'' @ [nl]
     @ ''  <link>'' @ link @ ''</link>'' @ [nl]
     @ ''  <pubDate>'' @ date @ ''</pubDate>'' @ [nl]
     @ ''</item>'' @ [nl]"

subsection \<open>The run\<close>

definition feedPath :: "env \<Rightarrow> string" where
  "feedPath e = path_join (repoDir e) ''feed.xml''"

text \<open>
  \<open>fs.writeFile(path, text)\<close> opens the destination itself for writing, which creates
  or empties it, and then writes the text into it. When opening fails nothing
  changes; when a later write fails the destination keeps what was written so far.
\<close>

definition writeFile :: "write_outcome \<Rightarrow> string \<Rightarrow> string \<Rightarrow> string \<Rightarrow> fs \<Rightarrow> error option \<times> fs" where
  "writeFile outcome dir name text s =
     (let p = path_join dir name
      in case dirs s dir of
           None \<Rightarrow> (Some (IOError p), s)
         | Some names \<Rightarrow>
             (let listing = (dirs s)(dir \<mapsto> (if name \<in> set names then names else names @ [name]))
              in case outcome of
                   OpenFails \<Rightarrow> (Some (IOError p), s)
                 | WriteFailsAfter n \<Rightarrow>
                     (Some (IOError p), s\<lparr>dirs := listing, files := (files s)(p \<mapsto> take n text)\<rparr>)
                 | WriteCompletes \<Rightarrow>
                     (None, s\<lparr>dirs := listing, files := (files s)(p \<mapsto> text)\<rparr>)))"

text \<open>\<open>fs.readFile(blog, 'utf-8').then(extractPostInfo)\<close>.\<close>

definition readPostInfo :: "reducer \<Rightarrow> fs \<Rightarrow> string \<Rightarrow> error + PostInfo" where
  "readPostInfo stripMarkdown s blog =
     (case readFile s blog of
        Inl er \<Rightarrow> Inl er
      | Inr text \<Rightarrow> extractPostInfo stripMarkdown text)"

definition postInfos :: "reducer \<Rightarrow> fs \<Rightarrow> string list \<Rightarrow> error + PostInfo list" where
  "postInfos stripMarkdown s blogs = promise_all (map (readPostInfo stripMarkdown s) blogs)"

definition extractedDate :: "env \<Rightarrow> string \<Rightarrow> string" where
  "extractedDate e blog =
     join_with ''/'' (take 3 (split_on (CHR ''/'') (js_replace (repoDir e @ ''/'') [] blog)))"

definition dates :: "env \<Rightarrow> string list \<Rightarrow> string list" where
  "dates e blogs = map (\<lambda>blog. toUTCString (newDate e (extractedDate e blog))) blogs"

definition urls :: "env \<Rightarrow> string list \<Rightarrow> string list" where
  "urls e blogs = map (\<lambda>blog. js_replace (repoDir e) githubURLPrefix blog) blogs"

text \<open>The loop over \<open>i < postInfo.length\<close>; the three arrays have the same length.\<close>

definition rssItems :: "PostInfo list \<Rightarrow> string list \<Rightarrow> string list \<Rightarrow> string list" where
  "rssItems postInfo us ds =
     map (\<lambda>(p, u, d). generateRSSItem p u d) (zip postInfo (zip us ds))"

definition rssFeed :: "env \<Rightarrow> string list \<Rightarrow> string" where
  "rssFeed e items = js_replace ''{blog_entries}'' (join_with [nl] items) (rssTemplate e)"

text \<open>
  \<open>main\<close>: the outcome of the run (\<open>None\<close> when the promise fulfils, the rejection
  otherwise) and the file system it leaves.
\<close>

definition main :: "env \<Rightarrow> reducer \<Rightarrow> fs \<Rightarrow> error option \<times> fs" where
  "main e stripMarkdown s =
     (case allBlogs s (repoDir e) of
        Inl er \<Rightarrow> (Some er, s)
      | Inr found \<Rightarrow>
          (let blogs = array_sort (sortCompare e) found
           in case postInfos stripMarkdown s blogs of
                Inl er \<Rightarrow> (Some er, s)
              | Inr postInfo \<Rightarrow>
                  writeFile (writeOutcome e) (repoDir e) ''feed.xml''
                    (rssFeed e (rssItems postInfo (urls e blogs) (dates e blogs))) s))"

text \<open>The feed a run renders, up to the final write.\<close>

definition renderedFeed :: "env \<Rightarrow> reducer \<Rightarrow> fs \<Rightarrow> error + string" where
  "renderedFeed e stripMarkdown s =
     (case allBlogs s (repoDir e) of
        Inl er \<Rightarrow> Inl er
      | Inr found \<Rightarrow>
          (let blogs = array_sort (sortCompare e) found
           in then_map (\<lambda>postInfo. rssFeed e (rssItems postInfo (urls e blogs) (dates e blogs)))
                (postInfos stripMarkdown s blogs)))"

text \<open>Environments and trees used to run the program on concrete inputs.\<close>

definition utcEnv :: env where
  "utcEnv =
     \<lparr>repoDir = ''/repo'', localTZA = 0, yearClock = 1700000000000,
      buildClock = 1700000000000, legacyDate = (\<lambda>_. None), writeOutcome = WriteCompletes\<rparr>"

text \<open>
  A tree whose listings are in lexicographic order, with a document in a day
  directory that is not a number.
\<close>

definition mixedTree :: fs where
  "mixedTree =
     \<lparr>dirs = map_of
        [(''/repo'', [''2024'', ''README.md'']),
         (''/repo/2024'', [''10'', ''9'']),
         (''/repo/2024/10'', [''1'', ''notes'']),
         (''/repo/2024/10/1'', [''a.md'']),
         (''/repo/2024/10/notes'', [''u.md'']),
         (''/repo/2024/9'', [''1'']),
         (''/repo/2024/9/1'', [''b.md''])],
      files = map_of
        [(''/repo/README.md'', ''# Blog''),
         (''/repo/2024/10/1/a.md'', ''# October''),
         (''/repo/2024/10/notes/u.md'', ''# Notes''),
         (''/repo/2024/9/1/b.md'', ''# September'')]\<rparr>"

text \<open>The resolved date as a sort key, for paths that have one.\<close>

definition dateKey :: "env \<Rightarrow> string \<Rightarrow> int" where
  "dateKey e b = (case sortDate e b of None \<Rightarrow> 0 | Some t \<Rightarrow> t)"

definition cetEnv :: env where
  "cetEnv = utcEnv\<lparr>localTZA := 3600000\<rparr>"

text \<open>A tree that lists a document which cannot be read.\<close>

definition unreadableTree :: fs where
  "unreadableTree =
     \<lparr>dirs = map_of
        [(''/repo'', [''2023'']),
         (''/repo/2023'', [''1'']),
         (''/repo/2023/1'', [''1'']),
         (''/repo/2023/1/1'', [''x.ext'', ''y.ext''])],
      files = map_of
        [(''/repo/2023/1/1/x.ext'', ''Hello World'')]\<rparr>"

text \<open>A tree that holds a feed from an earlier run, and a run whose write fails.\<close>

definition oldFeedTree :: fs where
  "oldFeedTree =
     \<lparr>dirs = map_of
        [(''/repo'', [''2023'', ''feed.xml'']),
         (''/repo/2023'', [''1'']),
         (''/repo/2023/1'', [''1'']),
         (''/repo/2023/1/1'', [''x.ext''])],
      files = map_of
        [(''/repo/feed.xml'', ''<rss>old</rss>''),
         (''/repo/2023/1/1/x.ext'', ''Hello World'')]\<rparr>"

definition failingWriteEnv :: env where
  "failingWriteEnv = utcEnv\<lparr>writeOutcome := WriteFailsAfter 5\<rparr>"

definition blockedWriteEnv :: env where
  "blockedWriteEnv = utcEnv\<lparr>writeOutcome := OpenFails\<rparr>"

text \<open>A run one second after \<open>utcEnv\<close>.\<close>

definition laterEnv :: env where
  "laterEnv = utcEnv\<lparr>yearClock := 1700000001000, buildClock := 1700000001000\<rparr>"

text \<open>
  A rendered document with the content of the first \<open><tag>\<close> element removed, to
  compare two documents apart from that field.
\<close>

definition eraseField :: "string \<Rightarrow> string \<Rightarrow> string" where
  "eraseField tag text =
     (case find_first (''<'' @ tag @ ''>'') text of
        None \<Rightarrow> text
      | Some (front, rest) \<Rightarrow>
          (case find_first (''</'' @ tag @ ''>'') rest of
             None \<Rightarrow> text
           | Some (content, back) \<Rightarrow> front @ ''<'' @ tag @ ''>'' @ ''</'' @ tag @ ''>'' @ back))"

text \<open>The template before and after the placeholder \<open>{blog_entries}\<close>.\<close>

definition feedHead :: "env \<Rightarrow> string" where
  "feedHead e =
     ''<?xml version='' @ [dq] @ ''1.0'' @ [dq] @ '' encoding='' @ [dq] @ ''UTF-8'' @ [dq] @ '' ?>'' @ [nl]
     @ ''<rss version='' @ [dq] @ ''2.0'' @ [dq] @ ''>'' @ [nl]
     @ ''<channel>'' @ [nl]
     @ '' <title>'' @ blogTitle @ ''</title>'' @ [nl]
     @ '' <description>'' @ blogDescription @ ''</description>'' @ [nl]
     @ '' <link>'' @ githubURLBase @ ''</link>'' @ [nl]
     @ '' <copyright>'' @ copyrightField e @ ''</copyright>'' @ [nl]
     @ '' <lastBuildDate>'' @ lastBuildDate e @ ''</lastBuildDate>'' @ [nl]
     @ '' <pubDate>'' @ lastBuildDate e @ ''</pubDate>'' @ [nl]
     @ '' <ttl>'' @ ttl @ ''</ttl>'' @ [nl]
     @ [nl]"

definition feedTail :: string where
  "feedTail = [nl] @ [nl] @ ''</channel>'' @ [nl] @ ''</rss>'' @ [nl]"

text \<open>The item of the document \<open>2023/1/1/x.ext\<close> of the example trees, rendered in UTC.\<close>

definition exampleItem :: string where
  "exampleItem =
     generateRSSItem \<lparr>title = ''Hello World'', description = ''...''\<rparr>
       ''https://github.com/francisrstokes/githublog/blob/main/2023/1/1/x.ext''
       ''Sun, 01 Jan 2023 00:00:00 GMT''"

text \<open>The items of a run, before they are joined and put into the template.\<close>

definition renderedItems :: "env \<Rightarrow> reducer \<Rightarrow> fs \<Rightarrow> error + string list" where
  "renderedItems e stripMarkdown s =
     (case allBlogs s (repoDir e) of
        Inl er \<Rightarrow> Inl er
      | Inr found \<Rightarrow>
          (let blogs = array_sort (sortCompare e) found
           in then_map (\<lambda>postInfo. rssItems postInfo (urls e blogs) (dates e blogs))
                (postInfos stripMarkdown s blogs)))"

text \<open>The template up to the \<open>lastBuildDate\<close> element, and from there to the placeholder.\<close>

definition channelStart :: "env \<Rightarrow> string" where
  "channelStart e =
     ''<?xml version='' @ [dq] @ ''1.0'' @ [dq] @ '' encoding='' @ [dq] @ ''UTF-8'' @ [dq] @ '' ?>'' @ [nl]
     @ ''<rss version='' @ [dq] @ ''2.0'' @ [dq] @ ''>'' @ [nl]
     @ ''<channel>'' @ [nl]
     @ '' <title>'' @ blogTitle @ ''</title>'' @ [nl]
     @ '' <description>'' @ blogDescription @ ''</description>'' @ [nl]
     @ '' <link>'' @ githubURLBase @ ''</link>'' @ [nl]
     @ '' <copyright>'' @ copyrightField e @ ''</copyright>'' @ [nl]
     @ '' ''"

definition channelEnd :: "env \<Rightarrow> string" where
  "channelEnd e =
     [nl]
     @ '' <pubDate>'' @ lastBuildDate e @ ''</pubDate>'' @ [nl]
     @ '' <ttl>'' @ ttl @ ''</ttl>'' @ [nl]
     @ [nl]"

text \<open>
  The name of a year directory, stated apart from \<open>yearRegex\<close>: four characters, the
  digit 2 followed by three digits (a year of this millennium).
\<close>

definition year_name :: "string \<Rightarrow> bool" where
  "year_name y \<longleftrightarrow>
     length y = 4 \<and> take 1 y = ''2'' \<and> set (drop 1 y) \<subseteq> set ''0123456789''"

text \<open>A tree with a regular file inside a year directory.\<close>

definition strayFileTree :: fs where
  "strayFileTree =
     \<lparr>dirs = map_of
        [(''/repo'', [''2023'']),
         (''/repo/2023'', [''1'', ''notes.txt'']),
         (''/repo/2023/1'', [''1'']),
         (''/repo/2023/1/1'', [''x.ext''])],
      files = map_of
        [(''/repo/2023/notes.txt'', ''todo''),
         (''/repo/2023/1/1/x.ext'', ''Hello World'')]\<rparr>"

text \<open>
  A reducer that does to text of letters, spaces and left square brackets what the
  markdown serializer behind \<open>stripMarkdown\<close> does: it writes a backslash before each
  bracket and ends a document that is not empty with a line feed.
\<close>

definition escapingReducer :: reducer where
  "escapingReducer x =
     (case x of
        None \<Rightarrow> Inr []
      | Some s \<Rightarrow>
          Inr (if s = [] then []
               else concat (map (\<lambda>c. if c = CHR ''['' then [CHR 0x5C, c] else [c]) s) @ [nl]))"

section \<open>Properties of the metadata extractor\<close>



lemma extractPostInfo_Inr:
  assumes "extractPostInfo r c = Inr p"
  obtains t d where
    "r (first_elem (contentWithoutEmptyLines c)) = Inr t"
    "r (Some (nonTitleContent c)) = Inr d"
    "title p = t"
    "description p = replace_newlines (trim d) @ ''...''"
  using assms unfolding extractPostInfo_def
  by (auto split: sum.splits)

lemma no_lines_iff: "contentWithoutEmptyLines c = [] \<longleftrightarrow> (\<forall>l \<in> set (split_on nl c). l = [])"
  by (simp add: contentWithoutEmptyLines_def filter_empty_conv)

text \<open>
  C10. Whenever the extractor returns, the description it returns ends with the three
  characters \<open>...\<close>: the marker is appended whether or not the body was cut, so it is
  there also for a body far below the budget.
\<close>

theorem description_ends_with_marker:
  assumes "extractPostInfo stripMarkdown markdownContents = Inr p"
  shows "suffix ''...'' (description p)"
proof -
  from assms obtain d where "description p = replace_newlines (trim d) @ ''...''"
    by (rule extractPostInfo_Inr)
  then show ?thesis
    by (simp add: suffix_def)
qed

theorem description_ends_with_marker_witness:
  "extractPostInfo plainReducer ''# T'' = Inr \<lparr>title = ''# T'', description = ''...''\<rparr>
   \<and> suffix ''...'' (description \<lparr>title = ''# T'', description = ''...''\<rparr>)"
proof -
  have run: "extractPostInfo plainReducer ''# T'' = Inr \<lparr>title = ''# T'', description = ''...''\<rparr>"
    by (simp add: extractPostInfo_def plainReducer_def contentWithoutEmptyLines_def
        nonTitleContent_def first_elem_def nl_def trim_def replace_newlines_def)
  show ?thesis
    using run description_ends_with_marker [OF run] by simp
qed


lemma split_on_not_Nil: "split_on sep s \<noteq> []"
  by (induction s) (auto split: list.splits)

text \<open>
  C4. For the document whose whole content is the line \<open>Hello World\<close>, the title is
  what the reducer returns for that line, handed on as it is: the description is
  trimmed, the title is not. With a reducer that ends its output with a line feed, as
  the markdown serializer does, the description is \<open>...\<close> but the title is
  \<open>Hello World\<close> followed by a line feed.
\<close>

theorem title_keeps_line_feed:
  "extractPostInfo escapingReducer ''Hello World''
     = Inr \<lparr>title = ''Hello World'' @ [nl], description = ''...''\<rparr>
   \<and> escapingReducer (Some ''Hello World'') = Inr (''Hello World'' @ [nl])
   \<and> ''Hello World'' @ [nl] \<noteq> ''Hello World''"
  by (simp add: extractPostInfo_def escapingReducer_def contentWithoutEmptyLines_def
      nonTitleContent_def first_elem_def nl_def trim_def replace_newlines_def)

text \<open>
  C5. For a document with no non-empty line (the empty string, or newlines only) the
  extractor does not fail on the missing first line: \<open>contentWithoutEmptyLines[0]\<close> is
  \<open>undefined\<close>, which is handed to the reducer, and the body is empty. With a reducer
  that maps the missing input to the empty text and accepts the empty body, the
  extractor returns normally and the title is empty.
\<close>

theorem no_content_document:
  assumes "\<forall>l \<in> set (split_on nl markdownContents). l = []"
    and "stripMarkdown None = Inr []"
    and "stripMarkdown (Some []) = Inr d"
  shows "extractPostInfo stripMarkdown markdownContents
         = Inr \<lparr>title = [], description = replace_newlines (trim d) @ ''...''\<rparr>"
proof -
  have lines: "contentWithoutEmptyLines markdownContents = []"
    using assms(1) by (simp add: no_lines_iff)
  have body: "nonTitleContent markdownContents = []"
    by (simp add: nonTitleContent_def lines)
  show ?thesis
    by (simp add: extractPostInfo_def lines body first_elem_def assms(2,3))
qed

theorem no_content_document_witness:
  "split_on nl [nl, nl] = [[], [], []]
   \<and> split_on nl [] = [[]]
   \<and> plainReducer None = Inr []
   \<and> plainReducer (Some []) = Inr []
   \<and> extractPostInfo plainReducer [nl, nl] = Inr \<lparr>title = [], description = ''...''\<rparr>
   \<and> extractPostInfo plainReducer [] = Inr \<lparr>title = [], description = ''...''\<rparr>"
proof -
  have a: "\<forall>l \<in> set (split_on nl [nl, nl]). l = []"
    by simp
  have a': "\<forall>l \<in> set (split_on nl []). l = []"
    by simp
  have b: "plainReducer None = Inr []"
    by (simp add: plainReducer_def)
  have c: "plainReducer (Some []) = Inr []"
    by (simp add: plainReducer_def)
  have t: "replace_newlines (trim []) = []"
    by (simp add: trim_def replace_newlines_def)
  show ?thesis
    using b c no_content_document [OF a b c] no_content_document [OF a' b c] t by simp
qed

section \<open>Properties of the path scanner\<close>

lemma gather_listing:
  assumes "then_map concat (promise_all (map (\<lambda>x. then_map (map (h x)) (readdir s (k x))) xs)) = Inr ys"
  shows "(\<forall>x\<in>set xs. dirs s (k x) \<noteq> None)
         \<and> set ys = {b. \<exists>x n. x \<in> set xs \<and> lists_entry s (k x) n \<and> b = h x n}"
  using assms
proof (induction xs arbitrary: ys)
  case Nil
  then show ?case by (simp add: then_map_def)
next
  case (Cons x xs)
  from Cons.prems obtain names vs where gx: "dirs s (k x) = Some names"
    and rest: "promise_all (map (\<lambda>x. then_map (map (h x)) (readdir s (k x))) xs) = Inr vs"
    and ys: "ys = map (h x) names @ concat vs"
    by (auto simp: then_map_def readdir_def split: sum.splits option.splits)
  have "then_map concat (promise_all (map (\<lambda>x. then_map (map (h x)) (readdir s (k x))) xs))
          = Inr (concat vs)"
    unfolding rest by (simp add: then_map_def)
  from Cons.IH [OF this] have ih1: "\<forall>x\<in>set xs. dirs s (k x) \<noteq> None"
    and ih2: "set (concat vs) = {b. \<exists>x n. x \<in> set xs \<and> lists_entry s (k x) n \<and> b = h x n}"
    by simp_all
  have here: "set (map (h x) names) = {b. \<exists>n. lists_entry s (k x) n \<and> b = h x n}"
    using gx by (auto simp: lists_entry_def)
  have "set ys = set (map (h x) names) \<union> set (concat vs)"
    using ys by simp
  also have "\<dots> = {b. \<exists>x' n. x' \<in> set (x # xs) \<and> lists_entry s (k x') n \<and> b = h x' n}"
    unfolding here ih2 by auto
  finally show ?case
    using gx ih1 by simp
qed

lemma gather_listing_ok:
  assumes "\<forall>x\<in>set xs. dirs s (k x) \<noteq> None"
  shows "\<exists>ys. then_map concat (promise_all (map (\<lambda>x. then_map (map (h x)) (readdir s (k x))) xs)) = Inr ys"
  using assms
  by (induction xs) (auto simp: then_map_def readdir_def split: sum.splits option.splits)

lemma findBlogsInYearDir_set:
  assumes "findBlogsInYearDir s yd = Inr bs"
  shows "set bs = {p. \<exists>m d f. lists_entry s yd m \<and> lists_entry s (path_join yd m) d
           \<and> lists_entry s (path_join (path_join yd m) d) f
           \<and> p = path_join (path_join (path_join yd m) d) f}"
proof -
  from assms obtain months dayDirs where
    m: "dirs s yd = Some months"
    and d: "then_map concat (promise_all (map (\<lambda>month.
              then_map (map (path_join (path_join yd month))) (readdir s (path_join yd month)))
            months)) = Inr dayDirs"
    and b: "then_map concat (promise_all (map (\<lambda>dayDir.
              then_map (map (path_join dayDir)) (readdir s dayDir)) dayDirs)) = Inr bs"
    unfolding findBlogsInYearDir_def Let_def
    by (auto simp: readdir_def split: sum.splits option.splits)
  have days: "set dayDirs = {q. \<exists>mo dd. mo \<in> set months \<and> lists_entry s (path_join yd mo) dd
                 \<and> q = path_join (path_join yd mo) dd}"
    using gather_listing [OF d] by simp
  have blogs: "set bs = {p. \<exists>q f. q \<in> set dayDirs \<and> lists_entry s q f \<and> p = path_join q f}"
    using gather_listing [OF b] by simp
  have mo: "\<And>x. lists_entry s yd x \<longleftrightarrow> x \<in> set months"
    using m by (simp add: lists_entry_def)
  show ?thesis
    unfolding blogs days mo by blast
qed

lemma findBlogsInYearDir_ok:
  assumes "dirs s yd = Some months"
    and "\<forall>m\<in>set months. dirs s (path_join yd m) \<noteq> None"
    and "\<forall>m d. m \<in> set months \<and> lists_entry s (path_join yd m) d
            \<longrightarrow> dirs s (path_join (path_join yd m) d) \<noteq> None"
  shows "\<exists>bs. findBlogsInYearDir s yd = Inr bs"
proof -
  from gather_listing_ok [of months s "path_join yd" "\<lambda>m. path_join (path_join yd m)"] assms(2)
  obtain dayDirs where
    d: "then_map concat (promise_all (map (\<lambda>month.
              then_map (map (path_join (path_join yd month))) (readdir s (path_join yd month)))
            months)) = Inr dayDirs"
    by blast
  have "set dayDirs = {q. \<exists>mo dd. mo \<in> set months \<and> lists_entry s (path_join yd mo) dd
                 \<and> q = path_join (path_join yd mo) dd}"
    using gather_listing [OF d] by simp
  then have "\<forall>q\<in>set dayDirs. dirs s q \<noteq> None"
    using assms(3) by auto
  from gather_listing_ok [of dayDirs s "\<lambda>q. q" path_join, OF this] obtain bs where
    "then_map concat (promise_all (map (\<lambda>dayDir.
              then_map (map (path_join dayDir)) (readdir s dayDir)) dayDirs)) = Inr bs"
    by blast
  then show ?thesis
    unfolding findBlogsInYearDir_def Let_def using assms(1) d
    by (simp add: readdir_def)
qed

lemma gather_Inr:
  assumes "then_map concat (promise_all (map g xs)) = Inr ys"
  shows "(\<forall>x\<in>set xs. \<exists>v. g x = Inr v) \<and> set ys = {b. \<exists>x v. x \<in> set xs \<and> g x = Inr v \<and> b \<in> set v}"
  using assms
proof (induction xs arbitrary: ys)
  case Nil
  then show ?case by (simp add: then_map_def)
next
  case (Cons x xs)
  from Cons.prems obtain v vs where gx: "g x = Inr v"
    and rest: "promise_all (map g xs) = Inr vs" and ys: "ys = v @ concat vs"
    by (auto simp: then_map_def split: sum.splits)
  have "then_map concat (promise_all (map g xs)) = Inr (concat vs)"
    by (simp add: rest then_map_def)
  from Cons.IH [OF this] show ?case
    using gx ys by auto
qed

lemma gather_ok:
  assumes "\<forall>x\<in>set xs. \<exists>v. g x = Inr v"
  shows "\<exists>ys. then_map concat (promise_all (map g xs)) = Inr ys"
  using assms
  by (induction xs) (auto simp: then_map_def split: sum.splits)

lemma hierarchy_readable_iff:
  "hierarchy_readable s root names \<longleftrightarrow>
     (\<forall>y\<in>set names. yearRegex y \<longrightarrow>
        dirs s (path_join root y) \<noteq> None
        \<and> (\<forall>m. lists_entry s (path_join root y) m \<longrightarrow>
              dirs s (path_join (path_join root y) m) \<noteq> None
              \<and> (\<forall>d. lists_entry s (path_join (path_join root y) m) d \<longrightarrow>
                    dirs s (path_join (path_join (path_join root y) m) d) \<noteq> None)))"
  unfolding hierarchy_readable_def lists_entry_def list_all_iff
  by (auto split: option.splits)

lemma allBlogs_characterisation:
  assumes "dirs s root = Some names"
  shows "(hierarchy_readable s root names \<longrightarrow> (\<exists>blogs. allBlogs s root = Inr blogs))
    \<and> (\<forall>blogs p. allBlogs s root = Inr blogs \<longrightarrow>
         (p \<in> set blogs \<longleftrightarrow>
            (\<exists>y m d f. y \<in> set names \<and> yearRegex y
               \<and> lists_entry s (path_join root y) m
               \<and> lists_entry s (path_join (path_join root y) m) d
               \<and> lists_entry s (path_join (path_join (path_join root y) m) d) f
               \<and> p = path_join (path_join (path_join (path_join root y) m) d) f)))"
proof (intro conjI impI allI)
  assume h: "hierarchy_readable s root names"
  have "\<forall>yd\<in>set (map (path_join root) (filter yearRegex names)). \<exists>v. findBlogsInYearDir s yd = Inr v"
  proof
    fix yd assume "yd \<in> set (map (path_join root) (filter yearRegex names))"
    then obtain y where y: "y \<in> set names" "yearRegex y" "yd = path_join root y"
      by auto
    with h obtain months where months: "dirs s yd = Some months"
      unfolding hierarchy_readable_iff by blast
    have 1: "\<forall>m\<in>set months. dirs s (path_join yd m) \<noteq> None"
      using h y months unfolding hierarchy_readable_iff lists_entry_def by fastforce
    have 2: "\<forall>m d. m \<in> set months \<and> lists_entry s (path_join yd m) d
            \<longrightarrow> dirs s (path_join (path_join yd m) d) \<noteq> None"
      using h y months unfolding hierarchy_readable_iff
      by (metis lists_entry_def option.simps(5))
    show "\<exists>v. findBlogsInYearDir s yd = Inr v"
      by (rule findBlogsInYearDir_ok [OF months 1 2])
  qed
  from gather_ok [OF this] show "\<exists>blogs. allBlogs s root = Inr blogs"
    unfolding allBlogs_def Let_def using assms by (simp add: readdir_def)
next
  fix blogs p
  assume "allBlogs s root = Inr blogs"
  then have g: "then_map concat (promise_all (map (findBlogsInYearDir s)
                   (map (path_join root) (filter yearRegex names)))) = Inr blogs"
    unfolding allBlogs_def Let_def using assms by (simp add: readdir_def)
  from gather_Inr [OF g] have
    ok: "\<forall>yd\<in>set (map (path_join root) (filter yearRegex names)). \<exists>v. findBlogsInYearDir s yd = Inr v"
    and mem: "set blogs = {b. \<exists>yd v. yd \<in> set (map (path_join root) (filter yearRegex names))
                 \<and> findBlogsInYearDir s yd = Inr v \<and> b \<in> set v}"
    by simp_all
  show "p \<in> set blogs \<longleftrightarrow>
            (\<exists>y m d f. y \<in> set names \<and> yearRegex y
               \<and> lists_entry s (path_join root y) m
               \<and> lists_entry s (path_join (path_join root y) m) d
               \<and> lists_entry s (path_join (path_join (path_join root y) m) d) f
               \<and> p = path_join (path_join (path_join (path_join root y) m) d) f)"
    (is "?L \<longleftrightarrow> ?R")
  proof
    assume ?L
    with mem obtain y v where y: "y \<in> set names" "yearRegex y"
      and v: "findBlogsInYearDir s (path_join root y) = Inr v" "p \<in> set v"
      by auto
    from findBlogsInYearDir_set [OF v(1)] v(2) y show ?R
      by blast
  next
    assume ?R
    then obtain y m d f where y: "y \<in> set names" "yearRegex y"
      and e: "lists_entry s (path_join root y) m"
        "lists_entry s (path_join (path_join root y) m) d"
        "lists_entry s (path_join (path_join (path_join root y) m) d) f"
        "p = path_join (path_join (path_join (path_join root y) m) d) f"
      by blast
    from y have in_list: "path_join root y \<in> set (map (path_join root) (filter yearRegex names))"
      by simp
    with ok obtain v where v: "findBlogsInYearDir s (path_join root y) = Inr v"
      by blast
    have "p \<in> set v"
      unfolding findBlogsInYearDir_set [OF v] using e by blast
    with in_list v show ?L
      unfolding mem by blast
  qed
qed

lemma yearRegex_year_name: "yearRegex y = year_name y"
  by (auto simp: yearRegex_def year_name_def isDigit_def split: list.splits)

lemma findBlogsInYearDir_readable:
  assumes "findBlogsInYearDir s yd = Inr bs"
  shows "dirs s yd \<noteq> None
    \<and> (\<forall>m. lists_entry s yd m \<longrightarrow>
          dirs s (path_join yd m) \<noteq> None
          \<and> (\<forall>d. lists_entry s (path_join yd m) d \<longrightarrow>
                dirs s (path_join (path_join yd m) d) \<noteq> None))"
proof -
  from assms obtain months dayDirs where
    m: "dirs s yd = Some months"
    and d: "then_map concat (promise_all (map (\<lambda>month.
              then_map (map (path_join (path_join yd month))) (readdir s (path_join yd month)))
            months)) = Inr dayDirs"
    and b: "then_map concat (promise_all (map (\<lambda>dayDir.
              then_map (map (path_join dayDir)) (readdir s dayDir)) dayDirs)) = Inr bs"
    unfolding findBlogsInYearDir_def Let_def
    by (auto simp: readdir_def split: sum.splits option.splits)
  have months: "\<forall>x\<in>set months. dirs s (path_join yd x) \<noteq> None"
    and days: "set dayDirs = {q. \<exists>mo dd. mo \<in> set months \<and> lists_entry s (path_join yd mo) dd
                 \<and> q = path_join (path_join yd mo) dd}"
    using gather_listing [OF d] by simp_all
  have listed: "\<forall>q\<in>set dayDirs. dirs s q \<noteq> None"
    using gather_listing [OF b] by simp
  have mo: "\<And>x. lists_entry s yd x \<longleftrightarrow> x \<in> set months"
    using m by (simp add: lists_entry_def)
  show ?thesis
    using m months listed unfolding days mo by blast
qed

text \<open>
  C7, as the code has it. A year directory is a root entry whose name is the digit 2
  followed by three digits; root entries with any other name are never read and play
  no part in the outcome. Given a root whose listing can be read, the scanner returns
  exactly when every year directory, each entry of it and each entry of those can be
  listed as a directory, and is rejected otherwise. When it returns, a path is yielded
  exactly when it is \<open>root/y/m/d/f\<close> for a year directory \<open>y\<close>, an entry \<open>m\<close> of it, an
  entry \<open>d\<close> of that and an entry \<open>f\<close> of that, whatever kind of entry \<open>f\<close> is. On the
  tree with one directory that is not a year and the document \<open>2023/1/1/x.ext\<close>, the
  scan yields that document only.
\<close>

theorem scanner_yields_year_hierarchy:
  assumes "dirs s root = Some names"
  shows "((\<exists>blogs. allBlogs s root = Inr blogs) \<longleftrightarrow>
            (\<forall>y\<in>set names. year_name y \<longrightarrow>
               dirs s (path_join root y) \<noteq> None
               \<and> (\<forall>m. lists_entry s (path_join root y) m \<longrightarrow>
                     dirs s (path_join (path_join root y) m) \<noteq> None
                     \<and> (\<forall>d. lists_entry s (path_join (path_join root y) m) d \<longrightarrow>
                           dirs s (path_join (path_join (path_join root y) m) d) \<noteq> None))))
    \<and> (\<forall>blogs p. allBlogs s root = Inr blogs \<longrightarrow>
         (p \<in> set blogs \<longleftrightarrow>
            (\<exists>y m d f. y \<in> set names \<and> year_name y
               \<and> lists_entry s (path_join root y) m
               \<and> lists_entry s (path_join (path_join root y) m) d
               \<and> lists_entry s (path_join (path_join (path_join root y) m) d) f
               \<and> p = path_join (path_join (path_join (path_join root y) m) d) f)))"
proof (intro conjI)
  show "(\<exists>blogs. allBlogs s root = Inr blogs) \<longleftrightarrow>
            (\<forall>y\<in>set names. year_name y \<longrightarrow>
               dirs s (path_join root y) \<noteq> None
               \<and> (\<forall>m. lists_entry s (path_join root y) m \<longrightarrow>
                     dirs s (path_join (path_join root y) m) \<noteq> None
                     \<and> (\<forall>d. lists_entry s (path_join (path_join root y) m) d \<longrightarrow>
                           dirs s (path_join (path_join (path_join root y) m) d) \<noteq> None)))"
    (is "?returns \<longleftrightarrow> ?readable")
  proof
    assume ?returns
    then obtain blogs where "allBlogs s root = Inr blogs" ..
    then have g: "then_map concat (promise_all (map (findBlogsInYearDir s)
                   (map (path_join root) (filter yearRegex names)))) = Inr blogs"
      unfolding allBlogs_def Let_def using assms by (simp add: readdir_def)
    show ?readable
    proof (intro ballI impI)
      fix y assume "y \<in> set names" "year_name y"
      then have "path_join root y \<in> set (map (path_join root) (filter yearRegex names))"
        by (simp add: yearRegex_year_name)
      with gather_Inr [OF g] obtain v where "findBlogsInYearDir s (path_join root y) = Inr v"
        by blast
      then show "dirs s (path_join root y) \<noteq> None
               \<and> (\<forall>m. lists_entry s (path_join root y) m \<longrightarrow>
                     dirs s (path_join (path_join root y) m) \<noteq> None
                     \<and> (\<forall>d. lists_entry s (path_join (path_join root y) m) d \<longrightarrow>
                           dirs s (path_join (path_join (path_join root y) m) d) \<noteq> None))"
        by (rule findBlogsInYearDir_readable)
    qed
  next
    assume ?readable
    then have "hierarchy_readable s root names"
      unfolding hierarchy_readable_iff yearRegex_year_name by blast
    with allBlogs_characterisation [OF assms] show ?returns
      by blast
  qed
next
  show "\<forall>blogs p. allBlogs s root = Inr blogs \<longrightarrow>
         (p \<in> set blogs \<longleftrightarrow>
            (\<exists>y m d f. y \<in> set names \<and> year_name y
               \<and> lists_entry s (path_join root y) m
               \<and> lists_entry s (path_join (path_join root y) m) d
               \<and> lists_entry s (path_join (path_join (path_join root y) m) d) f
               \<and> p = path_join (path_join (path_join (path_join root y) m) d) f))"
    using allBlogs_characterisation [OF assms] unfolding yearRegex_year_name by blast
qed

theorem scanner_yields_year_hierarchy_witness:
  "dirs exampleTree ''/repo'' = Some [''assets'', ''2023'']
   \<and> year_name ''2023''
   \<and> \<not> year_name ''assets''
   \<and> \<not> year_name ''1999''
   \<and> allBlogs exampleTree ''/repo'' = Inr [''/repo/2023/1/1/x.ext'']
   \<and> (\<forall>p. (\<exists>y m d f. y \<in> set [''assets'', ''2023''] \<and> year_name y
               \<and> lists_entry exampleTree (path_join ''/repo'' y) m
               \<and> lists_entry exampleTree (path_join (path_join ''/repo'' y) m) d
               \<and> lists_entry exampleTree (path_join (path_join (path_join ''/repo'' y) m) d) f
               \<and> p = path_join (path_join (path_join (path_join ''/repo'' y) m) d) f)
            \<longleftrightarrow> p = ''/repo/2023/1/1/x.ext'')"
proof -
  have root: "dirs exampleTree ''/repo'' = Some [''assets'', ''2023'']"
    by (simp add: exampleTree_def)
  have scan: "allBlogs exampleTree ''/repo'' = Inr [''/repo/2023/1/1/x.ext'']"
    by (simp add: allBlogs_def exampleTree_def readdir_def yearRegex_def isDigit_def
        path_join_def findBlogsInYearDir_def then_map_def)
  have names: "year_name ''2023''" "\<not> year_name ''assets''" "\<not> year_name ''1999''"
    by (simp_all add: year_name_def)
  from scanner_yields_year_hierarchy [OF root] scan
  have members: "\<forall>p. (\<exists>y m d f. y \<in> set [''assets'', ''2023''] \<and> year_name y
               \<and> lists_entry exampleTree (path_join ''/repo'' y) m
               \<and> lists_entry exampleTree (path_join (path_join ''/repo'' y) m) d
               \<and> lists_entry exampleTree (path_join (path_join (path_join ''/repo'' y) m) d) f
               \<and> p = path_join (path_join (path_join (path_join ''/repo'' y) m) d) f)
            \<longleftrightarrow> p = ''/repo/2023/1/1/x.ext''"
    by simp
  from root names scan members show ?thesis
    by (intro conjI)
qed

text \<open>
  C7 as stated fails on \<open>strayFileTree\<close>: the root can be read, but the year directory
  holds a regular file next to its month directory. Listing that file is rejected and
  the scan yields nothing, although the document \<open>2023/1/1/x.ext\<close> lies under the year,
  month and day directories.
\<close>

theorem stray_file_counterexample:
  "dirs strayFileTree ''/repo'' = Some [''2023'']
   \<and> files strayFileTree ''/repo/2023/1/1/x.ext'' = Some ''Hello World''
   \<and> dirs strayFileTree ''/repo/2023/notes.txt'' = None
   \<and> allBlogs strayFileTree ''/repo'' = Inl (IOError ''/repo/2023/notes.txt'')"
proof -
  have scan: "allBlogs strayFileTree ''/repo'' = Inl (IOError ''/repo/2023/notes.txt'')"
    by (simp add: allBlogs_def strayFileTree_def readdir_def yearRegex_def isDigit_def
        path_join_def findBlogsInYearDir_def then_map_def)
  show ?thesis
    using scan by (simp add: strayFileTree_def)
qed

section \<open>Properties of the ordering\<close>

lemma insert_sorted_insort:
  assumes "\<forall>y\<in>set ys. (cmp x y \<le> 0) = (k x \<le> k y)"
  shows "insert_sorted cmp x ys = insort_key k x ys"
  using assms by (induction ys) auto

lemma array_sort_sort_key:
  fixes k :: "'a \<Rightarrow> int"
  assumes "\<forall>x\<in>set xs. \<forall>y\<in>set xs. (cmp x y \<le> 0) = (k x \<le> k y)"
  shows "array_sort cmp xs = sort_key k xs"
  using assms
proof (induction xs)
  case Nil
  then show ?case by simp
next
  case (Cons x xs)
  have "array_sort cmp xs = sort_key k xs"
    using Cons by simp
  moreover have "\<forall>y\<in>set (sort_key k xs). (cmp x y \<le> 0) = (k x \<le> k y)"
    using Cons.prems by simp
  ultimately show ?case
    by (simp add: insert_sorted_insort sort_key_simps)
qed

lemma sortCompare_sortDate:
  "sortCompare e a b =
     (case (sortDate e a, sortDate e b) of (Some t, Some u) \<Rightarrow> t - u | _ \<Rightarrow> 0)"
  by (simp add: sortCompare_def sortDate_def split: option.splits)

lemma sort_by_date:
  assumes "\<forall>b\<in>set blogs. sortDate e b \<noteq> None"
  shows "array_sort (sortCompare e) blogs = sort_key (dateKey e) blogs"
proof (rule array_sort_sort_key, intro ballI)
  fix x y assume "x \<in> set blogs" "y \<in> set blogs"
  with assms obtain t u where "sortDate e x = Some t" "sortDate e y = Some u"
    by (metis not_Some_eq)
  then show "(sortCompare e x y \<le> 0) = (dateKey e x \<le> dateKey e y)"
    by (simp add: sortCompare_sortDate dateKey_def)
qed

lemma rssItems_zip:
  "rssItems infos (urls e ys) (dates e ys) =
     map (\<lambda>(p, blog). generateRSSItem p (js_replace (repoDir e) githubURLPrefix blog)
                         (toUTCString (newDate e (extractedDate e blog))))
         (zip infos ys)"
  unfolding rssItems_def urls_def dates_def
  by (induction infos ys rule: list_induct2') auto

lemma sortDate_october: "sortDate utcEnv ''/repo/2024/10/1/a.md'' = Some 1727740800000"
  by (simp add: sortDate_def dateGroupAt_def isLineTerminator_def isDigit_def first_elem_def newDate_def parseYMD_def numberOf_def digitVal_def daysFromCivil_def msPerDay_def utcEnv_def)

lemma sortDate_september: "sortDate utcEnv ''/repo/2024/9/1/b.md'' = Some 1725148800000"
  by (simp add: sortDate_def dateGroupAt_def isLineTerminator_def isDigit_def first_elem_def newDate_def parseYMD_def numberOf_def digitVal_def daysFromCivil_def msPerDay_def utcEnv_def)

lemma sortDate_notes: "sortDate utcEnv ''/repo/2024/10/notes/u.md'' = None"
  by (simp add: sortDate_def dateGroupAt_def isLineTerminator_def isDigit_def first_elem_def newDate_def parseYMD_def numberOf_def digitVal_def daysFromCivil_def msPerDay_def utcEnv_def)

text \<open>
  C1, as the code has it. In a run where the comparator resolves a date for every
  scanned path, the sorted list is a rearrangement of the scanned one in which a
  document with a strictly earlier date stands strictly before one with a later date,
  documents with the same date keep their scan order, and the items are rendered
  from the sorted paths in that order. A path without a resolvable date compares as
  equal to every other path; the claim for runs with such a path is not made.
\<close>

theorem dated_documents_sorted:
  assumes "\<forall>b\<in>set blogs. sortDate e b \<noteq> None"
  shows "mset (array_sort (sortCompare e) blogs) = mset blogs
    \<and> (\<forall>i j t u. i < length blogs \<and> j < length blogs
          \<and> sortDate e (array_sort (sortCompare e) blogs ! i) = Some t
          \<and> sortDate e (array_sort (sortCompare e) blogs ! j) = Some u
          \<and> t < u \<longrightarrow> i < j)
    \<and> (\<forall>t. filter (\<lambda>b. sortDate e b = Some t) (array_sort (sortCompare e) blogs)
            = filter (\<lambda>b. sortDate e b = Some t) blogs)
    \<and> (\<forall>infos. rssItems infos (urls e (array_sort (sortCompare e) blogs))
                   (dates e (array_sort (sortCompare e) blogs))
          = map (\<lambda>(p, blog). generateRSSItem p (js_replace (repoDir e) githubURLPrefix blog)
                                (toUTCString (newDate e (extractedDate e blog))))
              (zip infos (array_sort (sortCompare e) blogs)))"
proof -
  let ?ys = "array_sort (sortCompare e) blogs"
  have ys: "?ys = sort_key (dateKey e) blogs"
    by (rule sort_by_date [OF assms])
  have perm: "mset ?ys = mset blogs"
    by (simp add: ys)
  have srt: "sorted (map (dateKey e) ?ys)"
    by (simp add: ys)
  have order: "i < j" if ij: "i < length blogs" "j < length blogs"
    and t: "sortDate e (?ys ! i) = Some t" and u: "sortDate e (?ys ! j) = Some u"
    and lt: "t < u" for i j t u
  proof (rule ccontr)
    assume "\<not> i < j"
    then have "j \<le> i" by simp
    moreover have "i < length (map (dateKey e) ?ys)"
      using ij by (simp add: ys)
    ultimately have "map (dateKey e) ?ys ! j \<le> map (dateKey e) ?ys ! i"
      using srt by (simp add: sorted_iff_nth_mono)
    then have "dateKey e (?ys ! j) \<le> dateKey e (?ys ! i)"
      using ij by (simp add: ys)
    then show False
      using t u lt by (simp add: dateKey_def)
  qed
  have key: "(sortDate e b = Some t) = (dateKey e b = t)" if "b \<in> set blogs" for b t
    using assms that by (auto simp: dateKey_def)
  have stable: "filter (\<lambda>b. sortDate e b = Some t) ?ys = filter (\<lambda>b. sortDate e b = Some t) blogs"
    for t
  proof -
    have "filter (\<lambda>b. sortDate e b = Some t) ?ys = filter (\<lambda>b. dateKey e b = t) ?ys"
      by (rule filter_cong [OF refl]) (simp add: ys key)
    also have "\<dots> = filter (\<lambda>b. dateKey e b = t) blogs"
      unfolding ys by (rule sort_key_stable)
    also have "\<dots> = filter (\<lambda>b. sortDate e b = Some t) blogs"
      by (rule filter_cong [OF refl]) (simp add: key)
    finally show ?thesis .
  qed
  show ?thesis
    using perm order stable rssItems_zip by blast
qed

theorem dated_documents_sorted_witness:
  "sortDate utcEnv ''/repo/2024/10/1/a.md'' \<noteq> None
   \<and> sortDate utcEnv ''/repo/2024/9/1/b.md'' \<noteq> None
   \<and> array_sort (sortCompare utcEnv) [''/repo/2024/10/1/a.md'', ''/repo/2024/9/1/b.md'']
       = [''/repo/2024/9/1/b.md'', ''/repo/2024/10/1/a.md'']
   \<and> mset [''/repo/2024/9/1/b.md'', ''/repo/2024/10/1/a.md'']
       = mset [''/repo/2024/10/1/a.md'', ''/repo/2024/9/1/b.md'']
   \<and> (\<forall>t. filter (\<lambda>b. sortDate utcEnv b = Some t) [''/repo/2024/9/1/b.md'', ''/repo/2024/10/1/a.md'']
            = filter (\<lambda>b. sortDate utcEnv b = Some t) [''/repo/2024/10/1/a.md'', ''/repo/2024/9/1/b.md''])"
proof -
  have dated: "\<forall>b\<in>set [''/repo/2024/10/1/a.md'', ''/repo/2024/9/1/b.md'']. sortDate utcEnv b \<noteq> None"
    by (simp add: sortDate_october sortDate_september)
  have sorted: "array_sort (sortCompare utcEnv) [''/repo/2024/10/1/a.md'', ''/repo/2024/9/1/b.md'']
       = [''/repo/2024/9/1/b.md'', ''/repo/2024/10/1/a.md'']"
    by (simp add: sortCompare_sortDate sortDate_october sortDate_september)
  show ?thesis
    using dated sorted dated_documents_sorted [OF dated] by simp
qed

text \<open>
  C1 as stated fails on the tree \<open>mixedTree\<close>, whose listings are in lexicographic
  order: the scan finds the October document, then one under a day directory that is
  not a number, then the September document. The comparator returns 0 for each
  neighbouring pair, the order stays as scanned, and the September document follows
  the October one although both have resolvable dates.
\<close>

theorem undated_neighbour_counterexample:
  "allBlogs mixedTree ''/repo''
     = Inr [''/repo/2024/10/1/a.md'', ''/repo/2024/10/notes/u.md'', ''/repo/2024/9/1/b.md'']
   \<and> array_sort (sortCompare utcEnv)
         [''/repo/2024/10/1/a.md'', ''/repo/2024/10/notes/u.md'', ''/repo/2024/9/1/b.md''] ! 0
       = ''/repo/2024/10/1/a.md''
   \<and> array_sort (sortCompare utcEnv)
         [''/repo/2024/10/1/a.md'', ''/repo/2024/10/notes/u.md'', ''/repo/2024/9/1/b.md''] ! 2
       = ''/repo/2024/9/1/b.md''
   \<and> sortDate utcEnv ''/repo/2024/10/1/a.md'' = Some 1727740800000
   \<and> sortDate utcEnv ''/repo/2024/9/1/b.md'' = Some 1725148800000
   \<and> (1725148800000 :: int) < 1727740800000"
proof -
  have scan: "allBlogs mixedTree ''/repo''
     = Inr [''/repo/2024/10/1/a.md'', ''/repo/2024/10/notes/u.md'', ''/repo/2024/9/1/b.md'']"
    by (simp add: allBlogs_def mixedTree_def readdir_def yearRegex_def isDigit_def
        path_join_def findBlogsInYearDir_def then_map_def)
  have kept: "array_sort (sortCompare utcEnv)
         [''/repo/2024/10/1/a.md'', ''/repo/2024/10/notes/u.md'', ''/repo/2024/9/1/b.md'']
       = [''/repo/2024/10/1/a.md'', ''/repo/2024/10/notes/u.md'', ''/repo/2024/9/1/b.md'']"
    by (simp add: sortCompare_sortDate sortDate_october sortDate_september sortDate_notes)
  show ?thesis
    unfolding kept using scan sortDate_october sortDate_september by simp
qed

section \<open>Properties of the run\<close>

lemma set_insert_sorted: "set (insert_sorted cmp x ys) = insert x (set ys)"
  by (induction ys) auto

lemma set_array_sort: "set (array_sort cmp xs) = set xs"
  by (induction xs) (auto simp: set_insert_sorted)

lemma promise_all_Inl:
  assumes "Inl er \<in> set rs"
  shows "\<exists>er'. promise_all rs = Inl er'"
  using assms by (induction rs) (auto split: sum.splits)

lemma main_renderedFeed:
  "main e strip s =
     (case renderedFeed e strip s of
        Inl er \<Rightarrow> (Some er, s)
      | Inr feed \<Rightarrow> writeFile (writeOutcome e) (repoDir e) ''feed.xml'' feed s)"
  by (simp add: main_def renderedFeed_def then_map_def Let_def split: sum.splits)

lemma scan_unreadableTree:
  "allBlogs unreadableTree ''/repo'' = Inr [''/repo/2023/1/1/x.ext'', ''/repo/2023/1/1/y.ext'']"
  by (simp add: allBlogs_def unreadableTree_def readdir_def yearRegex_def isDigit_def
        path_join_def findBlogsInYearDir_def then_map_def)

lemma find_first_here:
  assumes "pat \<noteq> []"
  shows "find_first pat (pat @ rest) = Some ([], rest)"
proof -
  from assms obtain p ps where pat: "pat = p # ps"
    by (cases pat) auto
  show ?thesis
    unfolding pat by simp
qed

lemma find_first_marked:
  assumes "c \<notin> set front" and "c \<notin> set u"
  shows "find_first (u @ c # v) (front @ (u @ c # v) @ rest) = Some (front, rest)"
  using assms(1)
proof (induction front)
  case Nil
  show ?case
    using find_first_here [of "u @ c # v" rest] by simp
next
  case (Cons a front)
  have "\<not> prefix (u @ c # v) ((a # front) @ (u @ c # v) @ rest)"
  proof
    assume "prefix (u @ c # v) ((a # front) @ (u @ c # v) @ rest)"
    then obtain w where w: "(a # front) @ (u @ c # v) @ rest = (u @ c # v) @ w"
      by (auto simp: prefix_def)
    have "((u @ c # v) @ w) ! length u = c"
      by (simp add: nth_append)
    then have at: "((a # front) @ (u @ c # v) @ rest) ! length u = c"
      using w by simp
    show False
    proof (cases "length u < length (a # front)")
      case True
      then have "(a # front) ! length u = c"
        using at by (simp only: nth_append if_True)
      then have "c \<in> set (a # front)"
        using True by (metis nth_mem)
      then show False
        using Cons.prems by simp
    next
      case False
      then have "((u @ c # v) @ rest) ! (length u - length (a # front)) = c"
        using at by (simp only: nth_append if_False)
      moreover have "length u - length (a # front) < length u"
        using False by simp
      ultimately have "u ! (length u - length (a # front)) = c"
        by (simp add: nth_append)
      then have "c \<in> set u"
        using \<open>length u - length (a # front) < length u\<close> by (metis nth_mem)
      then show False
        using assms(2) by simp
    qed
  qed
  moreover have "find_first (u @ c # v) (front @ (u @ c # v) @ rest) = Some (front, rest)"
    using Cons by simp
  ultimately show ?case
    by simp
qed

lemma rssTemplate_split: "rssTemplate e = feedHead e @ ''{blog_entries}'' @ feedTail"
  by (simp add: rssTemplate_def feedHead_def feedTail_def)

lemma ttl_value: "ttl = ''1440''"
  by (simp add: ttl_def digitChar_def)

lemma brace_not_in_constants:
  "CHR ''{'' \<notin> set blogTitle" "CHR ''{'' \<notin> set blogDescription"
  "CHR ''{'' \<notin> set githubURLBase" "CHR ''{'' \<notin> set ttl"
  by (simp_all add: blogTitle_def blogDescription_def githubURLBase_def ttl_value)

lemma rssFeed_split:
  assumes "CHR ''{'' \<notin> set (copyrightField e)" and "CHR ''{'' \<notin> set (lastBuildDate e)"
  shows "rssFeed e items =
           feedHead e
           @ getSubstitution ''{blog_entries}'' (feedHead e) feedTail (join_with [nl] items)
           @ feedTail"
proof -
  have "CHR ''{'' \<notin> set (feedHead e)"
    using assms brace_not_in_constants by (simp add: feedHead_def nl_def dq_def)
  from find_first_marked [of "CHR ''{''" "feedHead e" "[]" "''blog_entries}''" feedTail, OF this]
  have "find_first ''{blog_entries}'' (rssTemplate e) = Some (feedHead e, feedTail)"
    by (simp add: rssTemplate_split)
  then show ?thesis
    by (simp add: rssFeed_def js_replace_def)
qed

lemma lastBuildDate_utcEnv: "lastBuildDate utcEnv = ''Tue, 14 Nov 2023 22:13:20 GMT''"
  by code_simp

lemma copyrightField_utcEnv: "copyrightField utcEnv = ''2023 Francis Stokes - All rights reserved''"
  by code_simp

lemma lastBuildDate_laterEnv: "lastBuildDate laterEnv = ''Tue, 14 Nov 2023 22:13:21 GMT''"
  by code_simp

lemma copyrightField_laterEnv: "copyrightField laterEnv = ''2023 Francis Stokes - All rights reserved''"
  by code_simp

lemma lastBuildDate_failingWriteEnv: "lastBuildDate failingWriteEnv = ''Tue, 14 Nov 2023 22:13:20 GMT''"
  by code_simp

lemma copyrightField_failingWriteEnv:
  "copyrightField failingWriteEnv = ''2023 Francis Stokes - All rights reserved''"
  by code_simp

lemma scan_oldFeedTree: "allBlogs oldFeedTree ''/repo'' = Inr [''/repo/2023/1/1/x.ext'']"
  by (simp add: allBlogs_def oldFeedTree_def readdir_def yearRegex_def isDigit_def
        path_join_def findBlogsInYearDir_def then_map_def)

lemma scan_exampleTree: "allBlogs exampleTree ''/repo'' = Inr [''/repo/2023/1/1/x.ext'']"
  by (simp add: allBlogs_def exampleTree_def readdir_def yearRegex_def isDigit_def
        path_join_def findBlogsInYearDir_def then_map_def)

lemma example_urls:
  "js_replace ''/repo'' githubURLPrefix ''/repo/2023/1/1/x.ext''
     = ''https://github.com/francisrstokes/githublog/blob/main/2023/1/1/x.ext''"
  by code_simp

lemma example_extractedDate:
  "join_with ''/'' (take 3 (split_on (CHR ''/'') (js_replace (''/repo'' @ ''/'') [] ''/repo/2023/1/1/x.ext'')))
     = ''2023/1/1''"
  by code_simp

lemma example_date:
  assumes "localTZA e = 0"
  shows "toUTCString (newDate e ''2023/1/1'') = ''Sun, 01 Jan 2023 00:00:00 GMT''"
proof -
  have "newDate e ''2023/1/1'' = Some 1672531200000"
    using assms
    by (simp add: newDate_def parseYMD_def numberOf_def digitVal_def isDigit_def
        daysFromCivil_def msPerDay_def)
  moreover have "toUTCString (Some 1672531200000) = ''Sun, 01 Jan 2023 00:00:00 GMT''"
    by code_simp
  ultimately show ?thesis by simp
qed

lemma example_info:
  assumes "files s ''/repo/2023/1/1/x.ext'' = Some ''Hello World''"
  shows "postInfos plainReducer s [''/repo/2023/1/1/x.ext'']
           = Inr [\<lparr>title = ''Hello World'', description = ''...''\<rparr>]"
proof -
  have "extractPostInfo plainReducer ''Hello World''
          = Inr \<lparr>title = ''Hello World'', description = ''...''\<rparr>"
    by (simp add: extractPostInfo_def plainReducer_def contentWithoutEmptyLines_def
        nonTitleContent_def first_elem_def nl_def trim_def replace_newlines_def)
  then show ?thesis
    using assms by (simp add: postInfos_def readPostInfo_def readFile_def)
qed

lemma renderedFeed_renderedItems:
  "renderedFeed e strip s = then_map (rssFeed e) (renderedItems e strip s)"
  by (simp add: renderedFeed_def renderedItems_def then_map_def Let_def split: sum.splits)

lemma example_renderedItems:
  assumes "allBlogs s ''/repo'' = Inr [''/repo/2023/1/1/x.ext'']"
    and "files s ''/repo/2023/1/1/x.ext'' = Some ''Hello World''"
    and "repoDir e = ''/repo''" and "localTZA e = 0"
  shows "renderedItems e plainReducer s = Inr [exampleItem]"
proof -
  have u: "urls e [''/repo/2023/1/1/x.ext'']
      = [''https://github.com/francisrstokes/githublog/blob/main/2023/1/1/x.ext'']"
    unfolding urls_def assms(3) list.map example_urls ..
  have x: "extractedDate e ''/repo/2023/1/1/x.ext'' = ''2023/1/1''"
    unfolding extractedDate_def assms(3) example_extractedDate ..
  have d: "dates e [''/repo/2023/1/1/x.ext''] = [''Sun, 01 Jan 2023 00:00:00 GMT'']"
    unfolding dates_def list.map x example_date [OF assms(4)] ..
  have i: "rssItems [\<lparr>title = ''Hello World'', description = ''...''\<rparr>]
             [''https://github.com/francisrstokes/githublog/blob/main/2023/1/1/x.ext'']
             [''Sun, 01 Jan 2023 00:00:00 GMT''] = [exampleItem]"
    unfolding rssItems_def exampleItem_def by simp
  have s: "array_sort (sortCompare e) [''/repo/2023/1/1/x.ext''] = [''/repo/2023/1/1/x.ext'']"
    by simp
  show ?thesis
    unfolding renderedItems_def assms(3) assms(1) sum.case Let_def s
      example_info [OF assms(2)] then_map_def u d i ..
qed

lemma example_renderedFeed:
  assumes "allBlogs s ''/repo'' = Inr [''/repo/2023/1/1/x.ext'']"
    and "files s ''/repo/2023/1/1/x.ext'' = Some ''Hello World''"
    and "repoDir e = ''/repo''" and "localTZA e = 0"
  shows "renderedFeed e plainReducer s = Inr (rssFeed e [exampleItem])"
  unfolding renderedFeed_renderedItems example_renderedItems [OF assms]
  by (simp add: then_map_def)

lemma promise_all_Inl_mem:
  assumes "promise_all rs = Inl er"
  shows "Inl er \<in> set rs"
  using assms by (induction rs) (auto split: sum.splits)

text \<open>
  C3, as the code has it. The documents are read inside one \<open>Promise.all\<close> and no
  rejection is caught anywhere: when a scanned document cannot be read, the run as a
  whole is rejected, with the error of a scanned document whose read or reduction
  failed, nothing is written and the file system is left as it was. When the
  unreadable document is the only one that fails, the rejection is the error of that
  read. The outcome of the run is this one rejection; a feed is written only by a run
  in which every scanned document is read.
\<close>

theorem unreadable_document_fails_run:
  assumes "allBlogs s (repoDir e) = Inr found"
    and "b \<in> set found"
    and "files s b = None"
  shows "(\<exists>er. main e stripMarkdown s = (Some er, s)
            \<and> (\<exists>b'\<in>set found. readPostInfo stripMarkdown s b' = Inl er))
       \<and> ((\<forall>b'\<in>set found. b' \<noteq> b \<longrightarrow> (\<exists>p. readPostInfo stripMarkdown s b' = Inr p))
            \<longrightarrow> main e stripMarkdown s = (Some (IOError b), s))"
proof -
  have failed: "readPostInfo stripMarkdown s b = Inl (IOError b)"
    using assms(3) by (simp add: readPostInfo_def readFile_def)
  moreover have "b \<in> set (array_sort (sortCompare e) found)"
    using assms(2) by (simp add: set_array_sort)
  ultimately have "Inl (IOError b)
      \<in> set (map (readPostInfo stripMarkdown s) (array_sort (sortCompare e) found))"
    by force
  from promise_all_Inl [OF this] obtain er where
    er: "postInfos stripMarkdown s (array_sort (sortCompare e) found) = Inl er"
    unfolding postInfos_def by blast
  then have run: "main e stripMarkdown s = (Some er, s)"
    by (simp add: main_def assms(1))
  from er have "Inl er \<in> set (map (readPostInfo stripMarkdown s) (array_sort (sortCompare e) found))"
    unfolding postInfos_def by (rule promise_all_Inl_mem)
  then obtain b' where b': "b' \<in> set found" "readPostInfo stripMarkdown s b' = Inl er"
    by (auto simp: set_array_sort)
  have only: "er = IOError b"
    if "\<forall>b'\<in>set found. b' \<noteq> b \<longrightarrow> (\<exists>p. readPostInfo stripMarkdown s b' = Inr p)"
  proof -
    from that b' have "b' = b"
      by force
    with b'(2) failed show ?thesis
      by simp
  qed
  show ?thesis
    using run b' only by blast
qed

theorem unreadable_document_fails_run_witness:
  "allBlogs unreadableTree (repoDir utcEnv)
     = Inr [''/repo/2023/1/1/x.ext'', ''/repo/2023/1/1/y.ext'']
   \<and> files unreadableTree ''/repo/2023/1/1/y.ext'' = None
   \<and> readPostInfo plainReducer unreadableTree ''/repo/2023/1/1/x.ext''
       = Inr \<lparr>title = ''Hello World'', description = ''...''\<rparr>
   \<and> main utcEnv plainReducer unreadableTree
       = (Some (IOError ''/repo/2023/1/1/y.ext''), unreadableTree)"
proof -
  have scan: "allBlogs unreadableTree (repoDir utcEnv)
     = Inr [''/repo/2023/1/1/x.ext'', ''/repo/2023/1/1/y.ext'']"
    using scan_unreadableTree by (simp add: utcEnv_def)
  have listed: "''/repo/2023/1/1/y.ext'' \<in> set [''/repo/2023/1/1/x.ext'', ''/repo/2023/1/1/y.ext'']"
    by simp
  have unreadable: "files unreadableTree ''/repo/2023/1/1/y.ext'' = None"
    by (simp add: unreadableTree_def)
  have x: "readPostInfo plainReducer unreadableTree ''/repo/2023/1/1/x.ext''
       = Inr \<lparr>title = ''Hello World'', description = ''...''\<rparr>"
    by (simp add: readPostInfo_def readFile_def unreadableTree_def extractPostInfo_def
        plainReducer_def contentWithoutEmptyLines_def nonTitleContent_def first_elem_def
        nl_def trim_def replace_newlines_def)
  have others: "\<forall>b'\<in>set [''/repo/2023/1/1/x.ext'', ''/repo/2023/1/1/y.ext''].
      b' \<noteq> ''/repo/2023/1/1/y.ext'' \<longrightarrow> (\<exists>p. readPostInfo plainReducer unreadableTree b' = Inr p)"
    using x by simp
  from unreadable_document_fails_run [OF scan listed unreadable] others
  have "main utcEnv plainReducer unreadableTree
       = (Some (IOError ''/repo/2023/1/1/y.ext''), unreadableTree)"
    by blast
  with scan unreadable x show ?thesis
    by (intro conjI)
qed

text \<open>
  C3 as stated fails on \<open>unreadableTree\<close>: of the two scanned documents the second
  cannot be read; the run ends with that I/O error and no feed exists afterwards,
  although the first document is readable.
\<close>

theorem unreadable_document_counterexample:
  "files unreadableTree ''/repo/2023/1/1/x.ext'' = Some ''Hello World''
   \<and> files unreadableTree ''/repo/2023/1/1/y.ext'' = None
   \<and> main utcEnv plainReducer unreadableTree
       = (Some (IOError ''/repo/2023/1/1/y.ext''), unreadableTree)
   \<and> files unreadableTree ''/repo/feed.xml'' = None"
proof -
  have sorted: "array_sort (sortCompare utcEnv) [''/repo/2023/1/1/x.ext'', ''/repo/2023/1/1/y.ext'']
     = [''/repo/2023/1/1/x.ext'', ''/repo/2023/1/1/y.ext'']"
    by code_simp
  have infos: "postInfos plainReducer unreadableTree [''/repo/2023/1/1/x.ext'', ''/repo/2023/1/1/y.ext'']
     = Inl (IOError ''/repo/2023/1/1/y.ext'')"
    by code_simp
  have rd: "repoDir utcEnv = ''/repo''"
    by (simp add: utcEnv_def)
  have run: "main utcEnv plainReducer unreadableTree
       = (Some (IOError ''/repo/2023/1/1/y.ext''), unreadableTree)"
    unfolding main_def rd scan_unreadableTree sum.case Let_def sorted infos by simp
  show ?thesis
    using run by (simp add: unreadableTree_def)
qed

lemma renderedFeed_listing:
  assumes "renderedFeed e strip s = Inr feed"
  obtains names where "dirs s (repoDir e) = Some names"
  using assms unfolding renderedFeed_def allBlogs_def readdir_def
  by (auto split: option.splits sum.splits)

text \<open>
  C8. For \<open>2024/3/7/post.ext\<close> the three leading path segments give \<open>2024/3/7\<close>,
  which the date parser reads as midnight of 7 March 2024 in local time;
  \<open>toUTCString\<close> then renders that instant in UTC. With local time at UTC the item
  shows 7 March; with local time one hour east of UTC it shows 23:00 of 6 March.
\<close>

theorem pubDate_east_of_utc:
  "extractedDate cetEnv ''/repo/2024/3/7/post.ext'' = ''2024/3/7''
   \<and> localTZA cetEnv = 3600000
   \<and> newDate cetEnv ''2024/3/7'' = Some (daysFromCivil 2024 3 7 * msPerDay - 3600000)
   \<and> dates cetEnv [''/repo/2024/3/7/post.ext''] = [''Wed, 06 Mar 2024 23:00:00 GMT'']
   \<and> dates utcEnv [''/repo/2024/3/7/post.ext''] = [''Thu, 07 Mar 2024 00:00:00 GMT'']"
proof -
  have a: "extractedDate cetEnv ''/repo/2024/3/7/post.ext'' = ''2024/3/7''"
    by code_simp
  have b: "newDate cetEnv ''2024/3/7'' = Some (daysFromCivil 2024 3 7 * msPerDay - 3600000)"
    by (simp add: newDate_def parseYMD_def numberOf_def digitVal_def isDigit_def
        cetEnv_def utcEnv_def)
  have c: "dates cetEnv [''/repo/2024/3/7/post.ext''] = [''Wed, 06 Mar 2024 23:00:00 GMT'']"
    by code_simp
  have d: "dates utcEnv [''/repo/2024/3/7/post.ext''] = [''Thu, 07 Mar 2024 00:00:00 GMT'']"
    by code_simp
  have e: "localTZA cetEnv = 3600000"
    by (simp add: cetEnv_def)
  show ?thesis
    using a b c d e by simp
qed

section \<open>Properties of repeated runs\<close>

lemma feedHead_split:
  "feedHead e = channelStart e @ ''<lastBuildDate>'' @ lastBuildDate e @ ''</lastBuildDate>'' @ channelEnd e"
  by (simp add: feedHead_def channelStart_def channelEnd_def)

lemma eraseField_feed:
  assumes "CHR ''{'' \<notin> set (copyrightField e)" and "CHR ''{'' \<notin> set (lastBuildDate e)"
    and "CHR ''B'' \<notin> set (copyrightField e)" and "CHR ''B'' \<notin> set (lastBuildDate e)"
  shows "eraseField ''lastBuildDate'' (rssFeed e items)
     = channelStart e @ ''<lastBuildDate>'' @ ''</lastBuildDate>'' @ channelEnd e
       @ getSubstitution ''{blog_entries}'' (feedHead e) feedTail (join_with [nl] items)
       @ feedTail"
proof -
  define rest where "rest = channelEnd e
       @ getSubstitution ''{blog_entries}'' (feedHead e) feedTail (join_with [nl] items)
       @ feedTail"
  define element where "element = lastBuildDate e @ (''</last'' @ CHR ''B'' # ''uildDate>'') @ rest"
  have feed: "rssFeed e items
      = channelStart e @ (''<last'' @ CHR ''B'' # ''uildDate>'') @ element"
    by (simp add: rssFeed_split [OF assms(1,2)] feedHead_split element_def rest_def)
  have "CHR ''B'' \<notin> set (channelStart e)"
    using assms(3)
    by (simp add: channelStart_def blogTitle_def blogDescription_def githubURLBase_def nl_def dq_def)
  from find_first_marked [OF this, of "''<last''" "''uildDate>''" element]
  have open_tag: "find_first (''<'' @ ''lastBuildDate'' @ ''>'') (rssFeed e items)
        = Some (channelStart e, element)"
    unfolding feed by simp
  from find_first_marked [OF assms(4), of "''</last''" "''uildDate>''" rest]
  have close_tag: "find_first (''</'' @ ''lastBuildDate'' @ ''>'') element
        = Some (lastBuildDate e, rest)"
    unfolding element_def by simp
  show ?thesis
    unfolding eraseField_def open_tag close_tag option.case prod.case
    by (simp add: rest_def)
qed

lemma gather_cong:
  assumes "\<forall>x\<in>set xs. dirs s' (k x) = dirs s (k x)"
  shows "then_map concat (promise_all (map (\<lambda>x. then_map (map (h x)) (readdir s' (k x))) xs))
       = then_map concat (promise_all (map (\<lambda>x. then_map (map (h x)) (readdir s (k x))) xs))"
proof -
  have "map (\<lambda>x. then_map (map (h x)) (readdir s' (k x))) xs
      = map (\<lambda>x. then_map (map (h x)) (readdir s (k x))) xs"
  proof (rule map_cong [OF refl])
    fix x assume "x \<in> set xs"
    with assms show "then_map (map (h x)) (readdir s' (k x)) = then_map (map (h x)) (readdir s (k x))"
      by (simp add: readdir_def)
  qed
  from arg_cong [OF this, of "\<lambda>rs. then_map concat (promise_all rs)"] show ?thesis .
qed

lemma length_path_join: "length a < length (path_join a b)"
  by (simp add: path_join_def)

lemma findBlogsInYearDir_cong:
  assumes same: "\<And>p. length root < length p \<Longrightarrow> dirs s' p = dirs s p"
    and yd: "length root < length yd"
  shows "findBlogsInYearDir s' yd = findBlogsInYearDir s yd"
proof -
  let ?days = "\<lambda>t months. then_map concat (promise_all (map (\<lambda>month.
                  then_map (map (path_join (path_join yd month))) (readdir t (path_join yd month)))
                months))"
  let ?blogs = "\<lambda>t dayDirs. then_map concat (promise_all (map (\<lambda>dayDir.
                  then_map (map (path_join dayDir)) (readdir t dayDir)) dayDirs))"
  have unfold: "findBlogsInYearDir t yd =
      (case readdir t yd of
         Inl er \<Rightarrow> Inl er
       | Inr months \<Rightarrow>
           (case ?days t months of Inl er \<Rightarrow> Inl er | Inr dayDirs \<Rightarrow> ?blogs t dayDirs))" for t
    unfolding findBlogsInYearDir_def Let_def ..
  have top: "readdir s' yd = readdir s yd"
    by (simp add: readdir_def same yd)
  have days: "?days s' months = ?days s months" for months
  proof (rule gather_cong, rule ballI)
    fix month
    have "length root < length (path_join yd month)"
      using yd length_path_join [of yd month] by simp
    then show "dirs s' (path_join yd month) = dirs s (path_join yd month)"
      by (rule same)
  qed
  have blogs: "?blogs s' dayDirs = ?blogs s dayDirs" if "?days s months = Inr dayDirs"
    for months dayDirs
  proof (rule gather_cong, rule ballI)
    fix q assume "q \<in> set dayDirs"
    with gather_listing [OF that] obtain m d where "q = path_join (path_join yd m) d"
      by auto
    then have "length root < length q"
      using yd length_path_join [of yd m] length_path_join [of "path_join yd m" d] by simp
    then show "dirs s' q = dirs s q"
      by (rule same)
  qed
  show ?thesis
    unfolding unfold top using days blogs
    by (auto split: sum.splits)
qed

lemma yearRegex_first: "yearRegex y \<Longrightarrow> \<exists>r. y = CHR ''2'' # r"
  by (auto simp: yearRegex_def split: list.splits)

lemma allBlogs_shape:
  assumes "allBlogs s root = Inr found" and "p \<in> set found"
  shows "\<exists>r. p = root @ ''/2'' @ r"
proof -
  from assms(1) obtain names where names: "dirs s root = Some names"
    and g: "then_map concat (promise_all (map (findBlogsInYearDir s)
              (map (path_join root) (filter yearRegex names)))) = Inr found"
    unfolding allBlogs_def Let_def readdir_def by (auto split: option.splits)
  from gather_Inr [OF g] assms(2) obtain y v where y: "yearRegex y"
    and v: "findBlogsInYearDir s (path_join root y) = Inr v" "p \<in> set v"
    by auto
  from findBlogsInYearDir_set [OF v(1)] v(2) obtain m d f where
    p: "p = path_join (path_join (path_join (path_join root y) m) d) f"
    by blast
  from yearRegex_first [OF y] obtain r where "y = CHR ''2'' # r" ..
  then show ?thesis
    unfolding p by (simp add: path_join_def)
qed

lemma blog_not_feed:
  assumes "allBlogs s (repoDir e) = Inr found" and "p \<in> set found"
  shows "p \<noteq> feedPath e"
proof -
  from allBlogs_shape [OF assms] obtain r where "p = repoDir e @ ''/2'' @ r" ..
  then show ?thesis
    by (simp add: feedPath_def path_join_def)
qed

lemma not_year_feed: "\<not> yearRegex ''feed.xml''"
  by (simp add: yearRegex_def)

lemma allBlogs_after_write:
  assumes names: "dirs s root = Some names"
    and listing: "dirs s' = (dirs s)(root \<mapsto> (if ''feed.xml'' \<in> set names then names else names @ [''feed.xml'']))"
  shows "allBlogs s' root = allBlogs s root"
proof -
  have same: "dirs s' p = dirs s p" if "length root < length p" for p
    using that by (auto simp: listing)
  have years: "findBlogsInYearDir s' yd = findBlogsInYearDir s yd"
    if "yd \<in> set (map (path_join root) (filter yearRegex names))" for yd
  proof -
    from that obtain y where "yd = path_join root y" by auto
    then have "length root < length yd"
      using length_path_join [of root y] by simp
    with same show ?thesis
      by (rule findBlogsInYearDir_cong)
  qed
  have eq: "map (findBlogsInYearDir s') (map (path_join root) (filter yearRegex names))
      = map (findBlogsInYearDir s) (map (path_join root) (filter yearRegex names))"
    by (rule map_cong [OF refl]) (rule years)
  have before: "allBlogs s root = then_map concat (promise_all
       (map (findBlogsInYearDir s) (map (path_join root) (filter yearRegex names))))"
    by (simp add: allBlogs_def readdir_def names)
  have "allBlogs s' root = then_map concat (promise_all
       (map (findBlogsInYearDir s') (map (path_join root) (filter yearRegex names))))"
    by (simp add: allBlogs_def readdir_def listing not_year_feed)
  then show ?thesis
    unfolding before eq .
qed

lemma newDate_cong:
  assumes "localTZA e2 = localTZA e1" and "legacyDate e2 = legacyDate e1"
  shows "newDate e2 = newDate e1"
  by (rule ext) (unfold newDate_def assms, rule refl)

lemma renderedItems_env_cong:
  assumes "repoDir e2 = repoDir e1" and "localTZA e2 = localTZA e1"
    and "legacyDate e2 = legacyDate e1"
  shows "renderedItems e2 strip s = renderedItems e1 strip s"
proof -
  have nd: "newDate e2 = newDate e1"
    by (rule newDate_cong [OF assms(2,3)])
  have sc: "sortCompare e2 = sortCompare e1"
    by (intro ext) (unfold sortCompare_def nd, rule refl)
  have us: "urls e2 = urls e1"
    by (intro ext) (unfold urls_def assms(1), rule refl)
  have ds: "dates e2 = dates e1"
    by (intro ext) (unfold dates_def extractedDate_def assms(1) nd, rule refl)
  show ?thesis
    unfolding renderedItems_def assms(1) sc us ds ..
qed

lemma postInfos_cong:
  assumes "\<forall>b\<in>set blogs. files s' b = files s b"
  shows "postInfos strip s' blogs = postInfos strip s blogs"
proof -
  have "map (readPostInfo strip s') blogs = map (readPostInfo strip s) blogs"
  proof (rule map_cong [OF refl])
    fix b assume "b \<in> set blogs"
    with assms show "readPostInfo strip s' b = readPostInfo strip s b"
      by (simp add: readPostInfo_def readFile_def)
  qed
  then show ?thesis
    unfolding postInfos_def by (rule arg_cong)
qed

lemma renderedItems_fs_cong:
  assumes "allBlogs s' (repoDir e) = allBlogs s (repoDir e)"
    and "\<And>found b. allBlogs s (repoDir e) = Inr found \<Longrightarrow> b \<in> set found \<Longrightarrow> files s' b = files s b"
  shows "renderedItems e strip s' = renderedItems e strip s"
proof (cases "allBlogs s (repoDir e)")
  case (Inl er)
  then show ?thesis
    by (simp add: renderedItems_def assms(1))
next
  case (Inr found)
  have "postInfos strip s' (array_sort (sortCompare e) found)
      = postInfos strip s (array_sort (sortCompare e) found)"
    by (rule postInfos_cong) (simp add: set_array_sort assms(2) [OF Inr])
  then show ?thesis
    by (simp add: renderedItems_def assms(1) Inr Let_def)
qed

lemma main_completes:
  assumes "main e strip s = (None, s')"
  obtains names items where
    "dirs s (repoDir e) = Some names"
    "renderedItems e strip s = Inr items"
    "dirs s' = (dirs s)(repoDir e \<mapsto> (if ''feed.xml'' \<in> set names then names else names @ [''feed.xml'']))"
    "files s' = (files s)(feedPath e \<mapsto> rssFeed e items)"
proof -
  from assms obtain feed where feed: "renderedFeed e strip s = Inr feed"
    and w: "writeFile (writeOutcome e) (repoDir e) ''feed.xml'' feed s = (None, s')"
    unfolding main_renderedFeed by (auto split: sum.splits)
  from feed obtain items where items: "renderedItems e strip s = Inr items"
    and f: "feed = rssFeed e items"
    unfolding renderedFeed_renderedItems then_map_def by (auto split: sum.splits)
  from feed obtain names where names: "dirs s (repoDir e) = Some names"
    by (rule renderedFeed_listing)
  from w have s': "s' = s\<lparr>dirs := (dirs s)(repoDir e \<mapsto>
                         (if ''feed.xml'' \<in> set names then names else names @ [''feed.xml''])),
                       files := (files s)(feedPath e \<mapsto> feed)\<rparr>"
    unfolding writeFile_def names Let_def feedPath_def
    by (auto split: write_outcome.splits)
  show ?thesis
    by (rule that [OF names items]) (simp_all add: s' f)
qed

lemma rerun_items:
  assumes "main e strip s = (None, s')"
  obtains items where
    "files s' (feedPath e) = Some (rssFeed e items)"
    "renderedItems e strip s = Inr items"
    "renderedItems e strip s' = Inr items"
proof -
  from assms obtain names items where names: "dirs s (repoDir e) = Some names"
    and items: "renderedItems e strip s = Inr items"
    and d: "dirs s' = (dirs s)(repoDir e \<mapsto> (if ''feed.xml'' \<in> set names then names else names @ [''feed.xml'']))"
    and f: "files s' = (files s)(feedPath e \<mapsto> rssFeed e items)"
    by (rule main_completes)
  have scan: "allBlogs s' (repoDir e) = allBlogs s (repoDir e)"
    by (rule allBlogs_after_write [OF names d])
  have "renderedItems e strip s' = renderedItems e strip s"
  proof (rule renderedItems_fs_cong [OF scan])
    fix found b assume "allBlogs s (repoDir e) = Inr found" "b \<in> set found"
    then have "b \<noteq> feedPath e"
      by (rule blog_not_feed)
    then show "files s' b = files s b"
      by (simp add: f)
  qed
  with items have "renderedItems e strip s' = Inr items"
    by simp
  moreover have "files s' (feedPath e) = Some (rssFeed e items)"
    by (simp add: f)
  ultimately show ?thesis
    using items by (intro that)
qed

lemma rssFeed_clock_fields:
  assumes "copyrightField e2 = copyrightField e1" and "lastBuildDate e2 = lastBuildDate e1"
  shows "rssFeed e2 items = rssFeed e1 items"
  by (simp add: rssFeed_def rssTemplate_def assms)

lemma allBlogs_dirs_cong:
  assumes "dirs s' = dirs s"
  shows "allBlogs s' root = allBlogs s root"
proof -
  have rd: "readdir s' = readdir s"
    by (rule ext) (simp add: readdir_def assms)
  have years: "findBlogsInYearDir s' = findBlogsInYearDir s"
    by (rule ext) (unfold findBlogsInYearDir_def rd, rule refl)
  show ?thesis
    unfolding allBlogs_def rd years ..
qed

text \<open>
  C6, as the code has it. The feed is written by one \<open>writeFile\<close> on the output path
  itself. When the write completes, the output path holds exactly the rendered feed,
  and no other file changes; the rendered feed itself does not depend on what the
  output path held before. When the path cannot be opened, the run is rejected and
  nothing changes. What a write that fails midway leaves behind is not part of the
  statement.
\<close>

theorem completed_write_replaces_feed:
  assumes "renderedFeed e stripMarkdown s = Inr feed"
  shows "(writeOutcome e = WriteCompletes \<longrightarrow>
            fst (main e stripMarkdown s) = None
            \<and> files (snd (main e stripMarkdown s)) (feedPath e) = Some feed
            \<and> (\<forall>p. p \<noteq> feedPath e \<longrightarrow> files (snd (main e stripMarkdown s)) p = files s p))
       \<and> (writeOutcome e = OpenFails \<longrightarrow>
            main e stripMarkdown s = (Some (IOError (feedPath e)), s))
       \<and> renderedFeed e stripMarkdown (s\<lparr>files := (files s)(feedPath e := prior)\<rparr>) = Inr feed"
proof -
  from assms obtain names where names: "dirs s (repoDir e) = Some names"
    by (rule renderedFeed_listing)
  have written: "(writeOutcome e = WriteCompletes \<longrightarrow>
            fst (main e stripMarkdown s) = None
            \<and> files (snd (main e stripMarkdown s)) (feedPath e) = Some feed
            \<and> (\<forall>p. p \<noteq> feedPath e \<longrightarrow> files (snd (main e stripMarkdown s)) p = files s p))
       \<and> (writeOutcome e = OpenFails \<longrightarrow>
            main e stripMarkdown s = (Some (IOError (feedPath e)), s))"
    by (simp add: main_renderedFeed assms writeFile_def names feedPath_def Let_def)
  let ?s = "s\<lparr>files := (files s)(feedPath e := prior)\<rparr>"
  have scan: "allBlogs ?s (repoDir e) = allBlogs s (repoDir e)"
    by (rule allBlogs_dirs_cong) simp
  have "renderedItems e stripMarkdown ?s = renderedItems e stripMarkdown s"
  proof (rule renderedItems_fs_cong [OF scan])
    fix found b assume "allBlogs s (repoDir e) = Inr found" "b \<in> set found"
    then have "b \<noteq> feedPath e"
      by (rule blog_not_feed)
    then show "files ?s b = files s b"
      by simp
  qed
  then have "renderedFeed e stripMarkdown ?s = Inr feed"
    using assms by (simp add: renderedFeed_renderedItems)
  with written show ?thesis
    by simp
qed

theorem completed_write_replaces_feed_witness:
  "renderedFeed utcEnv plainReducer oldFeedTree = Inr (rssFeed utcEnv [exampleItem])
   \<and> writeOutcome utcEnv = WriteCompletes
   \<and> files oldFeedTree ''/repo/feed.xml'' = Some ''<rss>old</rss>''
   \<and> fst (main utcEnv plainReducer oldFeedTree) = None
   \<and> files (snd (main utcEnv plainReducer oldFeedTree)) ''/repo/feed.xml''
       = Some (rssFeed utcEnv [exampleItem])
   \<and> files (snd (main utcEnv plainReducer oldFeedTree)) ''/repo/2023/1/1/x.ext''
       = Some ''Hello World''
   \<and> renderedFeed utcEnv plainReducer
         (oldFeedTree\<lparr>files := (files oldFeedTree)(''/repo/feed.xml'' := None)\<rparr>)
       = Inr (rssFeed utcEnv [exampleItem])
   \<and> writeOutcome blockedWriteEnv = OpenFails
   \<and> main blockedWriteEnv plainReducer oldFeedTree
       = (Some (IOError ''/repo/feed.xml''), oldFeedTree)"
proof -
  have x: "files oldFeedTree ''/repo/2023/1/1/x.ext'' = Some ''Hello World''"
    by (simp add: oldFeedTree_def)
  have rd: "repoDir utcEnv = ''/repo''" and tz: "localTZA utcEnv = 0"
    and w: "writeOutcome utcEnv = WriteCompletes"
    by (simp_all add: utcEnv_def)
  have rd': "repoDir blockedWriteEnv = ''/repo''" and tz': "localTZA blockedWriteEnv = 0"
    and w': "writeOutcome blockedWriteEnv = OpenFails"
    by (simp_all add: blockedWriteEnv_def utcEnv_def)
  have feed: "renderedFeed utcEnv plainReducer oldFeedTree = Inr (rssFeed utcEnv [exampleItem])"
    by (rule example_renderedFeed [OF scan_oldFeedTree x rd tz])
  have feed': "renderedFeed blockedWriteEnv plainReducer oldFeedTree
                 = Inr (rssFeed blockedWriteEnv [exampleItem])"
    by (rule example_renderedFeed [OF scan_oldFeedTree x rd' tz'])
  have old: "files oldFeedTree ''/repo/feed.xml'' = Some ''<rss>old</rss>''"
    by (simp add: oldFeedTree_def)
  have path: "feedPath utcEnv = ''/repo/feed.xml''" "feedPath blockedWriteEnv = ''/repo/feed.xml''"
    by (simp_all add: feedPath_def path_join_def rd rd')
  show ?thesis
    using feed w w' old x completed_write_replaces_feed [OF feed, of None]
      completed_write_replaces_feed [OF feed', of None]
    by (simp add: path)
qed

text \<open>
  C6 as stated fails for a write that breaks off after five characters: the run is
  rejected and the output path, which held an earlier feed, holds the first five
  characters of the new one.
\<close>

theorem failed_write_counterexample:
  "files oldFeedTree ''/repo/feed.xml'' = Some ''<rss>old</rss>''
   \<and> writeOutcome failingWriteEnv = WriteFailsAfter 5
   \<and> fst (main failingWriteEnv plainReducer oldFeedTree) = Some (IOError ''/repo/feed.xml'')
   \<and> files (snd (main failingWriteEnv plainReducer oldFeedTree)) ''/repo/feed.xml''
       = Some ''<?xml''"
proof -
  have x: "files oldFeedTree ''/repo/2023/1/1/x.ext'' = Some ''Hello World''"
    by (simp add: oldFeedTree_def)
  have rd: "repoDir failingWriteEnv = ''/repo''" and tz: "localTZA failingWriteEnv = 0"
    and w: "writeOutcome failingWriteEnv = WriteFailsAfter 5"
    by (simp_all add: failingWriteEnv_def utcEnv_def)
  have feed: "renderedFeed failingWriteEnv plainReducer oldFeedTree
                = Inr (rssFeed failingWriteEnv [exampleItem])"
    by (rule example_renderedFeed [OF scan_oldFeedTree x rd tz])
  have old: "files oldFeedTree ''/repo/feed.xml'' = Some ''<rss>old</rss>''"
    by (simp add: oldFeedTree_def)
  have listing: "dirs oldFeedTree ''/repo'' = Some [''2023'', ''feed.xml'']"
    by (simp add: oldFeedTree_def)
  have start: "take 5 (rssFeed failingWriteEnv [exampleItem]) = ''<?xml''"
    by (simp add: rssFeed_split lastBuildDate_failingWriteEnv copyrightField_failingWriteEnv
        feedHead_def)
  show ?thesis
    using old w
    by (simp add: main_renderedFeed feed rd writeFile_def listing path_join_def start Let_def)
qed

lemma first_run_exampleTree:
  "main utcEnv plainReducer exampleTree
     = (None, exampleTree\<lparr>dirs := (dirs exampleTree)(''/repo'' \<mapsto> [''assets'', ''2023'', ''feed.xml'']),
                          files := (files exampleTree)(''/repo/feed.xml'' \<mapsto> rssFeed utcEnv [exampleItem])\<rparr>)"
proof -
  have x: "files exampleTree ''/repo/2023/1/1/x.ext'' = Some ''Hello World''"
    by (simp add: exampleTree_def)
  have rd: "repoDir utcEnv = ''/repo''" and tz: "localTZA utcEnv = 0"
    and w: "writeOutcome utcEnv = WriteCompletes"
    by (simp_all add: utcEnv_def)
  have feed: "renderedFeed utcEnv plainReducer exampleTree = Inr (rssFeed utcEnv [exampleItem])"
    by (rule example_renderedFeed [OF scan_exampleTree x rd tz])
  have listing: "dirs exampleTree ''/repo'' = Some [''assets'', ''2023'']"
    by (simp add: exampleTree_def)
  show ?thesis
    by (simp add: main_renderedFeed feed rd w writeFile_def listing path_join_def Let_def)
qed

lemma second_run_exampleTree:
  assumes "main utcEnv plainReducer exampleTree = (None, s1)"
  shows "renderedFeed laterEnv plainReducer s1 = Inr (rssFeed laterEnv [exampleItem])"
proof -
  have x: "files exampleTree ''/repo/2023/1/1/x.ext'' = Some ''Hello World''"
    by (simp add: exampleTree_def)
  have rd: "repoDir utcEnv = ''/repo''" and tz: "localTZA utcEnv = 0"
    by (simp_all add: utcEnv_def)
  have first: "renderedItems utcEnv plainReducer exampleTree = Inr [exampleItem]"
    by (rule example_renderedItems [OF scan_exampleTree x rd tz])
  from assms obtain items where "renderedItems utcEnv plainReducer exampleTree = Inr items"
    and again: "renderedItems utcEnv plainReducer s1 = Inr items"
    by (rule rerun_items)
  with first have "renderedItems utcEnv plainReducer s1 = Inr [exampleItem]"
    by simp
  moreover have "renderedItems laterEnv plainReducer s1 = renderedItems utcEnv plainReducer s1"
    by (rule renderedItems_env_cong) (simp_all add: laterEnv_def)
  ultimately show ?thesis
    by (simp add: renderedFeed_renderedItems then_map_def)
qed

text \<open>
  C9, as the code has it. Let a first run complete and a second run start from the
  file system the first one left, with the same repository, time zone and date
  parser but a later clock. The second run renders the same items in the same order
  as the feed the first run wrote (its own output in the root is not scanned), and
  puts them into the channel template of its own clock. The template takes from the
  clock the copyright year and the build timestamp, the latter in both the
  \<open>lastBuildDate\<close> and the channel \<open>pubDate\<close> element; when those agree the two feeds
  are identical.
\<close>

theorem rerun_changes_clock_fields_only:
  assumes "repoDir e2 = repoDir e1" and "localTZA e2 = localTZA e1"
    and "legacyDate e2 = legacyDate e1"
    and "main e1 stripMarkdown s = (None, s1)"
  shows "\<exists>items. files s1 (feedPath e1) = Some (rssFeed e1 items)
           \<and> renderedFeed e2 stripMarkdown s1 = Inr (rssFeed e2 items)
           \<and> (copyrightField e2 = copyrightField e1 \<and> lastBuildDate e2 = lastBuildDate e1
                \<longrightarrow> rssFeed e2 items = rssFeed e1 items)"
proof -
  from assms(4) obtain items where
    written: "files s1 (feedPath e1) = Some (rssFeed e1 items)"
    and again: "renderedItems e1 stripMarkdown s1 = Inr items"
    by (rule rerun_items)
  have "renderedItems e2 stripMarkdown s1 = Inr items"
    using again renderedItems_env_cong [OF assms(1-3)] by simp
  then have "renderedFeed e2 stripMarkdown s1 = Inr (rssFeed e2 items)"
    by (simp add: renderedFeed_renderedItems then_map_def)
  with written show ?thesis
    using rssFeed_clock_fields by blast
qed

theorem rerun_changes_clock_fields_only_witness:
  "repoDir laterEnv = repoDir utcEnv
   \<and> localTZA laterEnv = localTZA utcEnv
   \<and> fst (main utcEnv plainReducer exampleTree) = None
   \<and> (\<exists>items. files (snd (main utcEnv plainReducer exampleTree)) (feedPath utcEnv)
                 = Some (rssFeed utcEnv items)
        \<and> renderedFeed laterEnv plainReducer (snd (main utcEnv plainReducer exampleTree))
            = Inr (rssFeed laterEnv items))
   \<and> (\<exists>items. files (snd (main utcEnv plainReducer exampleTree)) (feedPath utcEnv)
                 = Some (rssFeed utcEnv items)
        \<and> renderedFeed utcEnv plainReducer (snd (main utcEnv plainReducer exampleTree))
            = Inr (rssFeed utcEnv items))"
proof -
  have rd: "repoDir laterEnv = repoDir utcEnv" and tz: "localTZA laterEnv = localTZA utcEnv"
    and lg: "legacyDate laterEnv = legacyDate utcEnv"
    by (simp_all add: laterEnv_def)
  have ok: "fst (main utcEnv plainReducer exampleTree) = None"
    by (simp add: first_run_exampleTree)
  then have run: "main utcEnv plainReducer exampleTree
                    = (None, snd (main utcEnv plainReducer exampleTree))"
    by (metis prod.collapse)
  from rerun_changes_clock_fields_only [OF rd tz lg run]
  have later: "\<exists>items. files (snd (main utcEnv plainReducer exampleTree)) (feedPath utcEnv)
                 = Some (rssFeed utcEnv items)
        \<and> renderedFeed laterEnv plainReducer (snd (main utcEnv plainReducer exampleTree))
            = Inr (rssFeed laterEnv items)"
    by blast
  from rerun_changes_clock_fields_only [OF refl refl refl run]
  have same: "\<exists>items. files (snd (main utcEnv plainReducer exampleTree)) (feedPath utcEnv)
                 = Some (rssFeed utcEnv items)
        \<and> renderedFeed utcEnv plainReducer (snd (main utcEnv plainReducer exampleTree))
            = Inr (rssFeed utcEnv items)"
    by blast
  from rd tz ok later same show ?thesis
    by (intro conjI)
qed

text \<open>
  C9 as stated fails for two runs one second apart on \<open>exampleTree\<close>: with the content
  of the \<open>lastBuildDate\<close> element removed from both feeds they still differ, in the
  channel \<open>pubDate\<close> element, which holds the build timestamp as well.
\<close>

theorem rerun_counterexample:
  "fst (main utcEnv plainReducer exampleTree) = None
   \<and> files (snd (main utcEnv plainReducer exampleTree)) ''/repo/feed.xml''
       = Some (rssFeed utcEnv [exampleItem])
   \<and> renderedFeed laterEnv plainReducer (snd (main utcEnv plainReducer exampleTree))
       = Inr (rssFeed laterEnv [exampleItem])
   \<and> eraseField ''lastBuildDate'' (rssFeed utcEnv [exampleItem])
       \<noteq> eraseField ''lastBuildDate'' (rssFeed laterEnv [exampleItem])"
proof -
  have ok: "fst (main utcEnv plainReducer exampleTree) = None"
    and written: "files (snd (main utcEnv plainReducer exampleTree)) ''/repo/feed.xml''
       = Some (rssFeed utcEnv [exampleItem])"
    by (simp_all add: first_run_exampleTree)
  from ok have run: "main utcEnv plainReducer exampleTree
                    = (None, snd (main utcEnv plainReducer exampleTree))"
    by (metis prod.collapse)
  have again: "renderedFeed laterEnv plainReducer (snd (main utcEnv plainReducer exampleTree))
       = Inr (rssFeed laterEnv [exampleItem])"
    by (rule second_run_exampleTree [OF run])
  have e1: "eraseField ''lastBuildDate'' (rssFeed utcEnv [exampleItem])
     = channelStart utcEnv @ ''<lastBuildDate>'' @ ''</lastBuildDate>'' @ channelEnd utcEnv
       @ getSubstitution ''{blog_entries}'' (feedHead utcEnv) feedTail (join_with [nl] [exampleItem])
       @ feedTail"
    by (rule eraseField_feed) (simp_all add: copyrightField_utcEnv lastBuildDate_utcEnv)
  have e2: "eraseField ''lastBuildDate'' (rssFeed laterEnv [exampleItem])
     = channelStart laterEnv @ ''<lastBuildDate>'' @ ''</lastBuildDate>'' @ channelEnd laterEnv
       @ getSubstitution ''{blog_entries}'' (feedHead laterEnv) feedTail (join_with [nl] [exampleItem])
       @ feedTail"
    by (rule eraseField_feed) (simp_all add: copyrightField_laterEnv lastBuildDate_laterEnv)
  have start: "channelStart laterEnv = channelStart utcEnv"
    by (simp add: channelStart_def copyrightField_laterEnv copyrightField_utcEnv)
  have differ: "eraseField ''lastBuildDate'' (rssFeed utcEnv [exampleItem])
       \<noteq> eraseField ''lastBuildDate'' (rssFeed laterEnv [exampleItem])"
    unfolding e1 e2 start
    by (simp add: channelEnd_def lastBuildDate_utcEnv lastBuildDate_laterEnv)
  show ?thesis
    using ok written again differ by simp
qed

section \<open>Properties of the description budget\<close>












end
